theory Spec2Isabelle
  imports Complex_Main
begin

section \<open>Forward pass of the convolutional network (CNN-golang/cnn.go)\<close>

text \<open>
  The layers of \<^verbatim>\<open>cnn.go\<close> are embedded as HOL functions. Conventions:
  \<^item> a \<^verbatim>\<open>float64\<close> is a \<^typ>\<open>real\<close> with exact arithmetic, where the values computed
    are what matters; where a property depends on infinities and NaN (the sign of the
    outputs), the layers are given a second time over a type with these values;
  \<^item> a Go \<^verbatim>\<open>int\<close> is an \<^typ>\<open>int\<close>: the sizes and indices of the program are slice
    lengths; the shape arithmetic is also given with the 64-bit wrap-around written out;
  \<^item> a slice is a list; a tensor \<^verbatim>\<open>[][][]float64\<close> is a list of lists of lists;
  \<^item> every run-time panic of the source (index out of range, slice bounds out of range,
    integer division by zero, \<^verbatim>\<open>make\<close> with a negative length) is a value \<open>Inl p\<close> of
    the result type \<open>panic + 'a\<close>; the source has no other error path.
\<close>

subsection \<open>Run-time panics and the primitives that raise them\<close>

datatype panic =
  IndexOutOfRange
  | SliceBoundsOutOfRange
  | DivideByZero
  | MakesliceLenOutOfRange

text \<open>Sequencing: a panic on the left aborts the rest.\<close>

definition and_then :: "panic + 'a \<Rightarrow> ('a \<Rightarrow> panic + 'b) \<Rightarrow> panic + 'b" where
  "and_then m f = (case m of Inl e \<Rightarrow> Inl e | Inr x \<Rightarrow> f x)"

text \<open>\<^verbatim>\<open>xs[i]\<close>: panics unless \<open>0 \<le> i < len(xs)\<close>.\<close>

definition index :: "'a list \<Rightarrow> int \<Rightarrow> panic + 'a" where
  "index xs i =
     (if 0 \<le> i \<and> i < int (length xs) then Inr (xs ! nat i) else Inl IndexOutOfRange)"

text \<open>\<^verbatim>\<open>make([]T, n)\<close>: panics on a negative length, otherwise \<open>n\<close> zero values.\<close>

definition make_slice :: "int \<Rightarrow> 'a \<Rightarrow> panic + 'a list" where
  "make_slice n z = (if n < 0 then Inl MakesliceLenOutOfRange else Inr (replicate (nat n) z))"

text \<open>Go's integer division: panics on a zero divisor and truncates toward zero.\<close>

definition go_div :: "int \<Rightarrow> int \<Rightarrow> panic + int" where
  "go_div a b =
     (if b = 0 then Inl DivideByZero else Inr (sgn a * sgn b * (\<bar>a\<bar> div \<bar>b\<bar>)))"

text \<open>
  A \<^verbatim>\<open>for\<close> loop that produces one value per iteration, in order, and stops at the
  first panic.
\<close>

fun for_each :: "('a \<Rightarrow> panic + 'b) \<Rightarrow> 'a list \<Rightarrow> panic + 'b list" where
  "for_each f [] = Inr []"
| "for_each f (x # xs) =
     (case f x of
        Inl e \<Rightarrow> Inl e
      | Inr y \<Rightarrow> (case for_each f xs of Inl e \<Rightarrow> Inl e | Inr ys \<Rightarrow> Inr (y # ys)))"

text \<open>
  A \<^verbatim>\<open>for\<close> loop that updates a local state (an accumulator, an array under
  construction) and stops at the first panic.
\<close>

fun loop :: "('s \<Rightarrow> 'a \<Rightarrow> panic + 's) \<Rightarrow> 'a list \<Rightarrow> 's \<Rightarrow> panic + 's" where
  "loop f [] s = Inr s"
| "loop f (x # xs) s = (case f s x of Inl e \<Rightarrow> Inl e | Inr s' \<Rightarrow> loop f xs s')"

text \<open>The iterations \<^verbatim>\<open>for i := 0; i < n; i++\<close> for an \<^verbatim>\<open>int\<close> bound \<open>n\<close>.\<close>

definition upto_int :: "int \<Rightarrow> int list" where
  "upto_int n = map int [0..<nat n]"

text \<open>\<^verbatim>\<open>make([][]float64, h)\<close> followed by \<^verbatim>\<open>make([]float64, w)\<close> for each row.\<close>

definition make2D :: "int \<Rightarrow> int \<Rightarrow> panic + real list list" where
  "make2D h w = and_then (make_slice h ([]::real list)) (for_each (\<lambda>_. make_slice w 0))"

subsection \<open>Utility functions\<close>

text \<open>\<^verbatim>\<open>func relu(x float64) float64 { return math.Max(0, x) }\<close>\<close>

definition relu :: "real \<Rightarrow> real" where
  "relu x = max 0 x"

text \<open>
  \<^verbatim>\<open>copy(dst[off:], src)\<close>: the slice expression panics unless \<open>0 \<le> off \<le> len(dst)\<close>;
  \<^verbatim>\<open>copy\<close> writes \<open>min(len(dst) - off, len(src))\<close> elements.
\<close>

definition copy_at :: "'a list \<Rightarrow> int \<Rightarrow> 'a list \<Rightarrow> panic + 'a list" where
  "copy_at dst off src =
     (if 0 \<le> off \<and> off \<le> int (length dst)
      then let n = min (length dst - nat off) (length src)
           in Inr (take (nat off) dst @ take n src @ drop (nat off + n) dst)
      else Inl SliceBoundsOutOfRange)"

text \<open>
  \<^verbatim>\<open>pad2D\<close>: with padding 0 the input itself; otherwise a zero grid of
  \<open>h + 2 * padding\<close> rows and \<open>len(input[0]) + 2 * padding\<close> columns into which row \<open>i\<close>
  of the input is copied at row \<open>i + padding\<close>, column \<open>padding\<close>. The arguments of
  \<^verbatim>\<open>copy\<close> are evaluated from the left: \<^verbatim>\<open>padded[i+padding]\<close>, its slice from
  \<open>padding\<close>, then \<^verbatim>\<open>input[i]\<close>, which is in range for every \<open>i < h\<close>.
\<close>

definition pad2D :: "real list list \<Rightarrow> int \<Rightarrow> panic + real list list" where
  "pad2D input padding =
     (if padding = 0 then Inr input
      else
        let h = int (length input) in
        and_then (index input 0) (\<lambda>row0.
        let w = int (length row0) in
        and_then (make2D (h + 2 * padding) (w + 2 * padding)) (\<lambda>padded.
        loop (\<lambda>padded i.
                and_then (index padded (i + padding)) (\<lambda>dst.
                and_then (index input i) (\<lambda>src.
                and_then (copy_at dst padding src) (\<lambda>dst'.
                Inr (padded[nat (i + padding) := dst']))))) (upto_int h) padded)))"

subsection \<open>Convolution layer\<close>

record ConvLayer =
  Filters :: "real list list list list"
  Biases :: "real list"
  Stride :: int
  Padding :: int

text \<open>
  The output size of lines 33 and 34:
  \<^verbatim>\<open>(inputH + 2*cl.Padding - kernelH)/cl.Stride + 1\<close>.
\<close>

definition conv_out_size :: "int \<Rightarrow> int \<Rightarrow> int \<Rightarrow> int \<Rightarrow> panic + int" where
  "conv_out_size inputSize padding kernelSize stride =
     and_then (go_div (inputSize + 2 * padding - kernelSize) stride) (\<lambda>q. Inr (q + 1))"

text \<open>
  One execution of the body of the \<open>x\<close> loop (lines 54 to 64): the sum over the input
  channels and the kernel offsets, accumulated in that order from 0, then
  \<^verbatim>\<open>relu(sum + cl.Biases[f])\<close>.
\<close>

definition conv_cell ::
  "ConvLayer \<Rightarrow> real list list list \<Rightarrow> nat \<Rightarrow> nat \<Rightarrow> nat \<Rightarrow> int \<Rightarrow> int \<Rightarrow> int \<Rightarrow> panic + real"
where
  "conv_cell cl padded inChannels kernelH kernelW f y x =
     and_then
       (loop (\<lambda>sum c.
          let yStart = y * Stride cl; xStart = x * Stride cl in
          loop (\<lambda>sum ky.
            loop (\<lambda>sum kx.
              and_then (index padded c) (\<lambda>pc.
              and_then (index pc (yStart + ky)) (\<lambda>prow.
              and_then (index prow (xStart + kx)) (\<lambda>a.
              and_then (index (Filters cl) f) (\<lambda>ff.
              and_then (index ff c) (\<lambda>fc.
              and_then (index fc ky) (\<lambda>frow.
              and_then (index frow kx) (\<lambda>b.
              Inr (sum + a * b))))))))) (upto_int (int kernelW)) sum)
            (upto_int (int kernelH)) sum)
          (upto_int (int inChannels)) 0)
       (\<lambda>sum. and_then (index (Biases cl) f) (\<lambda>b. Inr (relu (sum + b))))"

text \<open>
  \<^verbatim>\<open>ConvLayer.Forward\<close>. The output is allocated first (lines 36 to 42, where a
  negative size panics), the channels are padded, and the loop nest of lines 51 to 67
  assigns every allocated cell \<open>output[f][y][x]\<close> exactly once, in index order; the
  model builds the assigned values in that order.
\<close>

definition conv_forward :: "ConvLayer \<Rightarrow> real list list list \<Rightarrow> panic + real list list list" where
  "conv_forward cl input =
     (let numFilters = length (Filters cl); inChannels = length input in
      and_then (index (Filters cl) 0) (\<lambda>f0.
      and_then (index f0 0) (\<lambda>f00.
      let kernelH = length f00 in
      and_then (index f00 0) (\<lambda>f000.
      let kernelW = length f000 in
      and_then (index input 0) (\<lambda>in0.
      let inputH = length in0 in
      and_then (index in0 0) (\<lambda>in00.
      let inputW = length in00 in
      and_then (conv_out_size (int inputH) (Padding cl) (int kernelH) (Stride cl)) (\<lambda>outH.
      and_then (conv_out_size (int inputW) (Padding cl) (int kernelW) (Stride cl)) (\<lambda>outW.
      and_then (for_each (\<lambda>_. make2D outH outW) (upto_int (int numFilters))) (\<lambda>_.
      and_then (for_each (\<lambda>c. and_then (index input c) (\<lambda>ch. pad2D ch (Padding cl)))
                  (upto_int (int inChannels))) (\<lambda>padded.
      for_each (\<lambda>f.
        for_each (\<lambda>y.
          for_each (\<lambda>x. conv_cell cl padded inChannels kernelH kernelW f y x)
            (upto_int outW))
          (upto_int outH))
        (upto_int (int numFilters))))))))))))"

subsection \<open>Max-pooling layer\<close>

record MaxPoolLayer =
  PoolSize :: int
  PoolStride :: int

text \<open>
  The field \<^verbatim>\<open>MaxPoolLayer.Stride\<close> is named \<open>PoolStride\<close>, since \<open>Stride\<close> is the
  field of the convolution layer. The output size of lines 82 and 83:
  \<^verbatim>\<open>(h - mpl.PoolSize)/mpl.Stride + 1\<close>.
\<close>

definition pool_out_size :: "int \<Rightarrow> int \<Rightarrow> int \<Rightarrow> panic + int" where
  "pool_out_size inputSize poolSize stride =
     and_then (go_div (inputSize - poolSize) stride) (\<lambda>q. Inr (q + 1))"

text \<open>The read \<^verbatim>\<open>input[c][y][x]\<close>, checked index by index.\<close>

definition index3 :: "real list list list \<Rightarrow> int \<Rightarrow> int \<Rightarrow> int \<Rightarrow> panic + real" where
  "index3 t c y x =
     and_then (index t c) (\<lambda>ch. and_then (index ch y) (\<lambda>row. index row x))"

text \<open>One execution of the body of the \<open>x\<close> loop (lines 96 to 107).\<close>

definition pool_cell :: "MaxPoolLayer \<Rightarrow> real list list list \<Rightarrow> int \<Rightarrow> int \<Rightarrow> int \<Rightarrow> panic + real" where
  "pool_cell mpl input c y x =
     (let yStart = y * PoolStride mpl; xStart = x * PoolStride mpl in
      and_then (index3 input c yStart xStart) (\<lambda>maxVal0.
      loop (\<lambda>maxVal ky.
        loop (\<lambda>maxVal kx.
          and_then (index3 input c (yStart + ky) (xStart + kx)) (\<lambda>val.
          Inr (if val > maxVal then val else maxVal)))
          (upto_int (PoolSize mpl)) maxVal)
        (upto_int (PoolSize mpl)) maxVal0))"

text \<open>\<^verbatim>\<open>MaxPoolLayer.Forward\<close>, with the output built as in the convolution.\<close>

definition pool_forward :: "MaxPoolLayer \<Rightarrow> real list list list \<Rightarrow> panic + real list list list" where
  "pool_forward mpl input =
     (let channels = length input in
      and_then (index input 0) (\<lambda>in0.
      let h = length in0 in
      and_then (index in0 0) (\<lambda>in00.
      let w = length in00 in
      and_then (pool_out_size (int h) (PoolSize mpl) (PoolStride mpl)) (\<lambda>outH.
      and_then (pool_out_size (int w) (PoolSize mpl) (PoolStride mpl)) (\<lambda>outW.
      and_then (for_each (\<lambda>_. make2D outH outW) (upto_int (int channels))) (\<lambda>_.
      for_each (\<lambda>c.
        for_each (\<lambda>y.
          for_each (\<lambda>x. pool_cell mpl input c y x) (upto_int outW))
          (upto_int outH))
        (upto_int (int channels))))))))"

subsection \<open>Flatten layer\<close>

text \<open>
  \<^verbatim>\<open>FlattenLayer.Forward\<close>: the state of the loops is the output slice and the
  counter \<open>i\<close>; the write \<^verbatim>\<open>output[i] = ...\<close> panics when \<open>i\<close> has reached the
  length computed from the first channel and its first row.
\<close>

definition flatten_store :: "real list \<times> nat \<Rightarrow> real \<Rightarrow> panic + real list \<times> nat" where
  "flatten_store s v =
     (case s of (output, i) \<Rightarrow>
        if i < length output then Inr (output[i := v], i + 1) else Inl IndexOutOfRange)"

definition flatten_forward :: "real list list list \<Rightarrow> panic + real list" where
  "flatten_forward input =
     and_then (index input 0) (\<lambda>in0.
     and_then (index in0 0) (\<lambda>in00.
     let size = length input * length in0 * length in00 in
     and_then (make_slice (int size) 0) (\<lambda>output.
     and_then
       (loop (\<lambda>s ch. loop (\<lambda>s row. loop flatten_store row s) ch s) input (output, 0))
       (\<lambda>s. Inr (fst s)))))"

subsection \<open>Dense layer\<close>

record DenseLayer =
  Weights :: "real list list"
  DenseBiases :: "real list"

text \<open>
  The field \<^verbatim>\<open>DenseLayer.Biases\<close> is named \<open>DenseBiases\<close>. One iteration of the
  \<open>i\<close> loop (lines 141 to 145): \<open>output[i]\<close> starts at the bias, accumulates the
  products in the order of \<open>j\<close>, and is replaced by its \<open>relu\<close>.
\<close>

definition dense_cell :: "DenseLayer \<Rightarrow> real list \<Rightarrow> int \<Rightarrow> panic + real" where
  "dense_cell dl input i =
     and_then (index (DenseBiases dl) i) (\<lambda>b.
     and_then
       (loop (\<lambda>acc j.
          and_then (index (Weights dl) i) (\<lambda>wrow.
          and_then (index wrow j) (\<lambda>wij.
          and_then (index input j) (\<lambda>v.
          Inr (acc + wij * v))))) (upto_int (int (length input))) b)
       (\<lambda>acc. Inr (relu acc)))"

definition dense_forward :: "DenseLayer \<Rightarrow> real list \<Rightarrow> panic + real list" where
  "dense_forward dl input =
     and_then (make_slice (int (length (DenseBiases dl))) (0::real)) (\<lambda>output.
     for_each (dense_cell dl input) (upto_int (int (length output))))"

subsection \<open>Definitions used in the statements\<close>

text \<open>
  The source has no inverse of the flatten layer. \<open>unflatten\<close> is the reshape that the
  round-trip property of the specification speaks of: with the known channel count,
  height and width, cell \<open>(ch, y, x)\<close> is read at the flat index \<open>ch * h * w + y * w + x\<close>.
\<close>

definition unflatten :: "nat \<Rightarrow> nat \<Rightarrow> nat \<Rightarrow> real list \<Rightarrow> real list list list" where
  "unflatten c h w v =
     map (\<lambda>ch. map (\<lambda>y. map (\<lambda>x. v ! (ch * h * w + y * w + x)) [0..<w]) [0..<h]) [0..<c]"

text \<open>A result that, if it is a panic, is the index-out-of-range panic.\<close>

definition index_panic_only :: "panic + 'a \<Rightarrow> bool" where
  "index_panic_only m = (case m of Inl e \<Rightarrow> e = IndexOutOfRange | Inr _ \<Rightarrow> True)"

subsection \<open>The shape arithmetic in 64 bits, and the closed form\<close>

text \<open>
  Go's \<^verbatim>\<open>int\<close> has 64 bits here: the result of \<open>+\<close>, \<open>-\<close> and \<open>*\<close> is reduced into
  \<open>[-2^63, 2^63)\<close>. \<open>conv_out_size64\<close> and \<open>pool_out_size64\<close> are the expressions of lines
  33, 34 and 82, 83 with that reduction written out after every operation (the quotient
  of the least integer by \<open>-1\<close> wraps as well). Within the range of sizes of slices they
  are \<open>conv_out_size\<close> and \<open>pool_out_size\<close>.
\<close>

definition wrap64 :: "int \<Rightarrow> int" where
  "wrap64 x = (x + 2 ^ 63) mod 2 ^ 64 - 2 ^ 63"

definition conv_out_size64 :: "int \<Rightarrow> int \<Rightarrow> int \<Rightarrow> int \<Rightarrow> panic + int" where
  "conv_out_size64 inputSize padding kernelSize stride =
     and_then
       (go_div (wrap64 (wrap64 (inputSize + wrap64 (2 * padding)) - kernelSize)) stride)
       (\<lambda>q. Inr (wrap64 (wrap64 q + 1)))"

definition pool_out_size64 :: "int \<Rightarrow> int \<Rightarrow> int \<Rightarrow> panic + int" where
  "pool_out_size64 inputSize poolSize stride =
     and_then (go_div (wrap64 (inputSize - poolSize)) stride) (\<lambda>q. Inr (wrap64 (wrap64 q + 1)))"

text \<open>
  The closed form of the specification, not a function of the source:
  \<open>outputSize = floor((inputSize + 2*padding - kernelSize) / stride) + 1\<close>.
\<close>

definition closed_form_size :: "int \<Rightarrow> int \<Rightarrow> int \<Rightarrow> int \<Rightarrow> int" where
  "closed_form_size inputSize padding kernelSize stride =
     \<lfloor>real_of_int (inputSize + 2 * padding - kernelSize) / real_of_int stride\<rfloor> + 1"

subsection \<open>The layers over float64 values with infinities and NaN\<close>

text \<open>
  Where a property depends on the special values of \<^verbatim>\<open>float64\<close>, the layers are read
  again over the type \<open>f64\<close>: a finite value (the real number it denotes), the two
  infinities, or NaN. The control flow of the definitions below is that of the
  definitions above, with the arithmetic of Go in place of that of the reals:
  \<^item> a finite sum or product whose magnitude reaches \<open>2^1024 - 2^970\<close> is the infinity of
    its sign (the largest finite \<^verbatim>\<open>float64\<close> is \<open>2^1024 - 2^971\<close>); below that the result
    is taken exact, rounding is not modelled;
  \<^item> an operation on NaN is NaN, as are \<open>+Inf + -Inf\<close> and \<open>0 * Inf\<close>;
  \<^item> a comparison with NaN is false;
  \<^item> \<^verbatim>\<open>math.Max\<close> returns \<open>+Inf\<close> if an argument is \<open>+Inf\<close>, else NaN if an argument is
    NaN, else the larger argument;
  \<^item> the negative zero is identified with zero.
\<close>

datatype f64 = Finite real | PosInf | NegInf | NaN

definition f64_round :: "real \<Rightarrow> f64" where
  "f64_round r =
     (if 2 ^ 1024 - 2 ^ 970 \<le> r then PosInf
      else if r \<le> - (2 ^ 1024 - 2 ^ 970) then NegInf
      else Finite r)"

fun f64_add :: "f64 \<Rightarrow> f64 \<Rightarrow> f64" where
  "f64_add (Finite a) (Finite b) = f64_round (a + b)"
| "f64_add NaN _ = NaN"
| "f64_add _ NaN = NaN"
| "f64_add PosInf NegInf = NaN"
| "f64_add NegInf PosInf = NaN"
| "f64_add PosInf _ = PosInf"
| "f64_add _ PosInf = PosInf"
| "f64_add NegInf _ = NegInf"
| "f64_add _ NegInf = NegInf"

fun f64_mul :: "f64 \<Rightarrow> f64 \<Rightarrow> f64" where
  "f64_mul (Finite a) (Finite b) = f64_round (a * b)"
| "f64_mul NaN _ = NaN"
| "f64_mul _ NaN = NaN"
| "f64_mul (Finite a) PosInf = (if a = 0 then NaN else if 0 < a then PosInf else NegInf)"
| "f64_mul (Finite a) NegInf = (if a = 0 then NaN else if 0 < a then NegInf else PosInf)"
| "f64_mul PosInf (Finite b) = (if b = 0 then NaN else if 0 < b then PosInf else NegInf)"
| "f64_mul NegInf (Finite b) = (if b = 0 then NaN else if 0 < b then NegInf else PosInf)"
| "f64_mul PosInf PosInf = PosInf"
| "f64_mul PosInf NegInf = NegInf"
| "f64_mul NegInf PosInf = NegInf"
| "f64_mul NegInf NegInf = PosInf"

text \<open>\<^verbatim>\<open>x > y\<close> and \<^verbatim>\<open>x >= 0\<close> on \<^verbatim>\<open>float64\<close>.\<close>

fun f64_gt :: "f64 \<Rightarrow> f64 \<Rightarrow> bool" where
  "f64_gt (Finite a) (Finite b) = (a > b)"
| "f64_gt NaN _ = False"
| "f64_gt _ NaN = False"
| "f64_gt _ PosInf = False"
| "f64_gt PosInf _ = True"
| "f64_gt NegInf _ = False"
| "f64_gt _ NegInf = True"

fun f64_ge0 :: "f64 \<Rightarrow> bool" where
  "f64_ge0 (Finite a) = (0 \<le> a)"
| "f64_ge0 PosInf = True"
| "f64_ge0 NegInf = False"
| "f64_ge0 NaN = False"

text \<open>\<^verbatim>\<open>math.Max\<close> of the Go library, and \<^verbatim>\<open>relu\<close> of line 167.\<close>

definition go_max :: "f64 \<Rightarrow> f64 \<Rightarrow> f64" where
  "go_max x y =
     (if x = PosInf \<or> y = PosInf then PosInf
      else if x = NaN \<or> y = NaN then NaN
      else if f64_gt x y then x else y)"

definition relu64 :: "f64 \<Rightarrow> f64" where
  "relu64 x = go_max (Finite 0) x"

definition make2D64 :: "int \<Rightarrow> int \<Rightarrow> panic + f64 list list" where
  "make2D64 h w = and_then (make_slice h ([]::f64 list)) (for_each (\<lambda>_. make_slice w (Finite 0)))"

definition pad2D64 :: "f64 list list \<Rightarrow> int \<Rightarrow> panic + f64 list list" where
  "pad2D64 input padding =
     (if padding = 0 then Inr input
      else
        let h = int (length input) in
        and_then (index input 0) (\<lambda>row0.
        let w = int (length row0) in
        and_then (make2D64 (h + 2 * padding) (w + 2 * padding)) (\<lambda>padded.
        loop (\<lambda>padded i.
                and_then (index padded (i + padding)) (\<lambda>dst.
                and_then (index input i) (\<lambda>src.
                and_then (copy_at dst padding src) (\<lambda>dst'.
                Inr (padded[nat (i + padding) := dst']))))) (upto_int h) padded)))"

record ConvLayer64 =
  Filters64 :: "f64 list list list list"
  Biases64 :: "f64 list"
  Stride64 :: int
  Padding64 :: int

definition conv_cell64 ::
  "ConvLayer64 \<Rightarrow> f64 list list list \<Rightarrow> nat \<Rightarrow> nat \<Rightarrow> nat \<Rightarrow> int \<Rightarrow> int \<Rightarrow> int \<Rightarrow> panic + f64"
where
  "conv_cell64 cl padded inChannels kernelH kernelW f y x =
     and_then
       (loop (\<lambda>sum c.
          let yStart = y * Stride64 cl; xStart = x * Stride64 cl in
          loop (\<lambda>sum ky.
            loop (\<lambda>sum kx.
              and_then (index padded c) (\<lambda>pc.
              and_then (index pc (yStart + ky)) (\<lambda>prow.
              and_then (index prow (xStart + kx)) (\<lambda>a.
              and_then (index (Filters64 cl) f) (\<lambda>ff.
              and_then (index ff c) (\<lambda>fc.
              and_then (index fc ky) (\<lambda>frow.
              and_then (index frow kx) (\<lambda>b.
              Inr (f64_add sum (f64_mul a b)))))))))) (upto_int (int kernelW)) sum)
            (upto_int (int kernelH)) sum)
          (upto_int (int inChannels)) (Finite 0))
       (\<lambda>sum. and_then (index (Biases64 cl) f) (\<lambda>b. Inr (relu64 (f64_add sum b))))"

definition conv_forward64 :: "ConvLayer64 \<Rightarrow> f64 list list list \<Rightarrow> panic + f64 list list list" where
  "conv_forward64 cl input =
     (let numFilters = length (Filters64 cl); inChannels = length input in
      and_then (index (Filters64 cl) 0) (\<lambda>f0.
      and_then (index f0 0) (\<lambda>f00.
      let kernelH = length f00 in
      and_then (index f00 0) (\<lambda>f000.
      let kernelW = length f000 in
      and_then (index input 0) (\<lambda>in0.
      let inputH = length in0 in
      and_then (index in0 0) (\<lambda>in00.
      let inputW = length in00 in
      and_then (conv_out_size (int inputH) (Padding64 cl) (int kernelH) (Stride64 cl)) (\<lambda>outH.
      and_then (conv_out_size (int inputW) (Padding64 cl) (int kernelW) (Stride64 cl)) (\<lambda>outW.
      and_then (for_each (\<lambda>_. make2D64 outH outW) (upto_int (int numFilters))) (\<lambda>_.
      and_then (for_each (\<lambda>c. and_then (index input c) (\<lambda>ch. pad2D64 ch (Padding64 cl)))
                  (upto_int (int inChannels))) (\<lambda>padded.
      for_each (\<lambda>f.
        for_each (\<lambda>y.
          for_each (\<lambda>x. conv_cell64 cl padded inChannels kernelH kernelW f y x)
            (upto_int outW))
          (upto_int outH))
        (upto_int (int numFilters))))))))))))"

definition index3_64 :: "f64 list list list \<Rightarrow> int \<Rightarrow> int \<Rightarrow> int \<Rightarrow> panic + f64" where
  "index3_64 t c y x =
     and_then (index t c) (\<lambda>ch. and_then (index ch y) (\<lambda>row. index row x))"

definition pool_cell64 :: "MaxPoolLayer \<Rightarrow> f64 list list list \<Rightarrow> int \<Rightarrow> int \<Rightarrow> int \<Rightarrow> panic + f64" where
  "pool_cell64 mpl input c y x =
     (let yStart = y * PoolStride mpl; xStart = x * PoolStride mpl in
      and_then (index3_64 input c yStart xStart) (\<lambda>maxVal0.
      loop (\<lambda>maxVal ky.
        loop (\<lambda>maxVal kx.
          and_then (index3_64 input c (yStart + ky) (xStart + kx)) (\<lambda>val.
          Inr (if f64_gt val maxVal then val else maxVal)))
          (upto_int (PoolSize mpl)) maxVal)
        (upto_int (PoolSize mpl)) maxVal0))"

definition pool_forward64 :: "MaxPoolLayer \<Rightarrow> f64 list list list \<Rightarrow> panic + f64 list list list" where
  "pool_forward64 mpl input =
     (let channels = length input in
      and_then (index input 0) (\<lambda>in0.
      let h = length in0 in
      and_then (index in0 0) (\<lambda>in00.
      let w = length in00 in
      and_then (pool_out_size (int h) (PoolSize mpl) (PoolStride mpl)) (\<lambda>outH.
      and_then (pool_out_size (int w) (PoolSize mpl) (PoolStride mpl)) (\<lambda>outW.
      and_then (for_each (\<lambda>_. make2D64 outH outW) (upto_int (int channels))) (\<lambda>_.
      for_each (\<lambda>c.
        for_each (\<lambda>y.
          for_each (\<lambda>x. pool_cell64 mpl input c y x) (upto_int outW))
          (upto_int outH))
        (upto_int (int channels))))))))"

definition flatten_store64 :: "f64 list \<times> nat \<Rightarrow> f64 \<Rightarrow> panic + f64 list \<times> nat" where
  "flatten_store64 s v =
     (case s of (output, i) \<Rightarrow>
        if i < length output then Inr (output[i := v], i + 1) else Inl IndexOutOfRange)"

definition flatten_forward64 :: "f64 list list list \<Rightarrow> panic + f64 list" where
  "flatten_forward64 input =
     and_then (index input 0) (\<lambda>in0.
     and_then (index in0 0) (\<lambda>in00.
     let size = length input * length in0 * length in00 in
     and_then (make_slice (int size) (Finite 0)) (\<lambda>output.
     and_then
       (loop (\<lambda>s ch. loop (\<lambda>s row. loop flatten_store64 row s) ch s) input (output, 0))
       (\<lambda>s. Inr (fst s)))))"

record DenseLayer64 =
  Weights64 :: "f64 list list"
  DenseBiases64 :: "f64 list"

definition dense_cell64 :: "DenseLayer64 \<Rightarrow> f64 list \<Rightarrow> int \<Rightarrow> panic + f64" where
  "dense_cell64 dl input i =
     and_then (index (DenseBiases64 dl) i) (\<lambda>b.
     and_then
       (loop (\<lambda>acc j.
          and_then (index (Weights64 dl) i) (\<lambda>wrow.
          and_then (index wrow j) (\<lambda>wij.
          and_then (index input j) (\<lambda>v.
          Inr (f64_add acc (f64_mul wij v)))))) (upto_int (int (length input))) b)
       (\<lambda>acc. Inr (relu64 acc)))"

definition dense_forward64 :: "DenseLayer64 \<Rightarrow> f64 list \<Rightarrow> panic + f64 list" where
  "dense_forward64 dl input =
     and_then (make_slice (int (length (DenseBiases64 dl))) (Finite 0)) (\<lambda>output.
     for_each (dense_cell64 dl input) (upto_int (int (length output))))"

text \<open>
  Elementwise \<^verbatim>\<open>v >= 0\<close>, and elementwise "\<^verbatim>\<open>v >= 0\<close> or \<open>v\<close> is NaN", on vectors and
  tensors of \<^verbatim>\<open>float64\<close> values.
\<close>

definition ge0_or_nan :: "f64 \<Rightarrow> bool" where
  "ge0_or_nan v = (v = NaN \<or> f64_ge0 v)"

definition all3 :: "('a \<Rightarrow> bool) \<Rightarrow> 'a list list list \<Rightarrow> bool" where
  "all3 Q t = list_all (list_all (list_all Q)) t"

section \<open>Basic facts about the primitives\<close>

lemma and_then_Inr [simp]: "and_then (Inr x) f = f x"
  by (simp add: and_then_def)

lemma and_then_Inl [simp]: "and_then (Inl e) f = Inl e"
  by (simp add: and_then_def)

lemma index_nat [simp]: "n < length xs \<Longrightarrow> index xs (int n) = Inr (xs ! n)"
  by (simp add: index_def)

lemma index_Inr_mem: "index xs i = Inr v \<Longrightarrow> v \<in> set xs"
  by (auto simp: index_def split: if_splits)

lemma upto_int_int [simp]: "upto_int (int n) = map int [0..<n]"
  by (simp add: upto_int_def)

lemma length_upto_int [simp]: "length (upto_int n) = nat n"
  by (simp add: upto_int_def)

lemma for_each_all_Inr:
  "(\<And>x. x \<in> set xs \<Longrightarrow> f x = Inr (g x)) \<Longrightarrow> for_each f xs = Inr (map g xs)"
  by (induction xs) simp_all

lemma for_each_Cons_Inr:
  "for_each f (x # xs) = Inr zs \<longleftrightarrow>
   (\<exists>y ys. f x = Inr y \<and> for_each f xs = Inr ys \<and> zs = y # ys)"
proof (cases "f x")
  case (Inl e)
  then show ?thesis by simp
next
  case (Inr y)
  then show ?thesis by (cases "for_each f xs") auto
qed

lemma loop_invariant:
  "loop f xs s = Inr s' \<Longrightarrow> P s \<Longrightarrow>
   (\<And>s x s'. P s \<Longrightarrow> x \<in> set xs \<Longrightarrow> f s x = Inr s' \<Longrightarrow> P s') \<Longrightarrow> P s'"
proof (induction xs arbitrary: s)
  case Nil
  then show ?case by simp
next
  case (Cons x xs)
  from Cons.prems(1) obtain s1 where s1: "f s x = Inr s1" "loop f xs s1 = Inr s'"
    by (cases "f s x") simp_all
  have "P s1" by (rule Cons.prems(3) [OF Cons.prems(2) _ s1(1)]) simp
  show ?case
  proof (rule Cons.IH [OF s1(2) \<open>P s1\<close>])
    fix t y t'
    assume "P t" "y \<in> set xs" "f t y = Inr t'"
    then show "P t'" by (intro Cons.prems(3) [of t y t']) simp_all
  qed
qed

lemma go_div_nonneg: "0 \<le> a \<Longrightarrow> 0 < b \<Longrightarrow> go_div a b = Inr (a div b)"
  by (simp add: go_div_def sgn_if)


lemma for_each_list_all:
  assumes "for_each f xs = Inr ys" and "\<And>x y. x \<in> set xs \<Longrightarrow> f x = Inr y \<Longrightarrow> P y"
  shows "list_all P ys"
  using assms
proof (induction xs arbitrary: ys)
  case Nil
  then show ?case by simp
next
  case (Cons x xs)
  from Cons.prems(1) obtain y ys' where
    *: "f x = Inr y" "for_each f xs = Inr ys'" "ys = y # ys'"
    unfolding for_each_Cons_Inr by blast
  have "P y" by (rule Cons.prems(2) [OF _ *(1)]) simp
  moreover have "list_all P ys'"
  proof (rule Cons.IH [OF *(2)])
    fix a b
    assume "a \<in> set xs" "f a = Inr b"
    then show "P b" by (intro Cons.prems(2) [of a b]) simp_all
  qed
  ultimately show ?case using *(3) by simp
qed

lemma and_thenE:
  assumes "and_then m f = Inr y"
  obtains x where "m = Inr x" "f x = Inr y"
  using assms by (cases m) simp_all

lemma for_each3_list_all:
  assumes "for_each (\<lambda>f. for_each (\<lambda>y. for_each (\<lambda>x. g f y x) xs) ys) fs = Inr t"
    and "\<And>f y x v. g f y x = Inr v \<Longrightarrow> P v"
  shows "list_all (list_all (list_all P)) t"
  by (rule for_each_list_all [OF assms(1)], erule for_each_list_all, erule for_each_list_all,
      erule assms(2))

lemma loop_append: "loop f (xs @ ys) s = and_then (loop f xs s) (loop f ys)"
proof (induction xs arbitrary: s)
  case Nil
  show ?case by simp
next
  case (Cons x xs)
  show ?case by (cases "f s x") (simp_all add: Cons.IH)
qed

lemma loop_upto_invariant:
  assumes step: "\<And>k s. k < n \<Longrightarrow> Inv k s \<Longrightarrow> \<exists>s'. f s (int k) = Inr s' \<and> Inv (Suc k) s'"
    and init: "Inv 0 s0"
  shows "\<exists>s'. loop f (map int [0..<n]) s0 = Inr s' \<and> Inv n s'"
  using step
proof (induction n)
  case 0
  with init show ?case by simp
next
  case (Suc n)
  have "\<exists>s'. loop f (map int [0..<n]) s0 = Inr s' \<and> Inv n s'"
  proof (rule Suc.IH)
    fix k s
    assume "k < n" "Inv k s"
    then show "\<exists>s'. f s (int k) = Inr s' \<and> Inv (Suc k) s'"
      by (intro Suc.prems) simp_all
  qed
  then obtain s1 where s1: "loop f (map int [0..<n]) s0 = Inr s1" "Inv n s1" by blast
  from Suc.prems [of n s1] s1(2) obtain s2 where s2: "f s1 (int n) = Inr s2" "Inv (Suc n) s2"
    by blast
  have "loop f (map int [0..<Suc n]) s0 = Inr s2"
    by (simp add: loop_append s1(1) s2(1))
  with s2(2) show ?case by blast
qed

lemma make_slice_nat [simp]: "make_slice (int n) z = Inr (replicate n z)"
  by (simp add: make_slice_def)

lemma for_each_const: "for_each (\<lambda>_. Inr c) xs = Inr (map (\<lambda>_. c) xs)"
  by (induction xs) simp_all

lemma make2D_nat: "make2D (int a) (int b) = Inr (replicate a (replicate b 0))"
  by (simp add: make2D_def for_each_const map_replicate_const)

lemma index_int_add [simp]: "k + P < length xs \<Longrightarrow> index xs (int k + int P) = Inr (xs ! (k + P))"
  using index_nat [of "k + P" xs] by (simp del: index_nat)

lemma loop_sum_upto:
  fixes t :: "nat \<Rightarrow> real"
  assumes "\<And>acc j. j < n \<Longrightarrow> f acc (int j) = Inr (acc + t j)"
  shows "loop f (map int [0..<n]) s = Inr (s + (\<Sum>j<n. t j))"
  using assms
proof (induction n)
  case 0
  show ?case by simp
next
  case (Suc n)
  have "loop f (map int [0..<n]) s = Inr (s + (\<Sum>j<n. t j))"
    by (rule Suc.IH) (simp add: Suc.prems)
  moreover have "f (s + (\<Sum>j<n. t j)) (int n) = Inr (s + (\<Sum>j<n. t j) + t n)"
    by (rule Suc.prems) simp
  ultimately show ?case by (simp add: loop_append add.assoc)
qed

lemma for_each_upto:
  assumes "\<And>i. i < n \<Longrightarrow> f (int i) = Inr (g i)"
  shows "for_each f (map int [0..<n]) = Inr (map g [0..<n])"
proof -
  have "for_each f (map int [0..<n]) = Inr (map (\<lambda>k. g (nat k)) (map int [0..<n]))"
  proof (rule for_each_all_Inr)
    fix x
    assume "x \<in> set (map int [0..<n])"
    then obtain i where "i < n" "x = int i" by auto
    then show "f x = Inr (g (nat x))" using assms by simp
  qed
  then show ?thesis by (simp add: comp_def)
qed

lemma loop_max_upto:
  fixes t :: "nat \<Rightarrow> real"
  assumes "\<And>m j. j < n \<Longrightarrow> f m (int j) = Inr (max m (t j))"
  shows "loop f (map int [0..<n]) s = Inr (Max (insert s (t ` {..<n})))"
  using assms
proof (induction n)
  case 0
  show ?case by simp
next
  case (Suc n)
  let ?M = "Max (insert s (t ` {..<n}))"
  have "loop f (map int [0..<n]) s = Inr ?M"
    by (rule Suc.IH) (simp add: Suc.prems)
  moreover have "f ?M (int n) = Inr (max ?M (t n))"
    by (rule Suc.prems) simp
  moreover have "max ?M (t n) = Max (insert s (t ` {..<Suc n}))"
  proof -
    have "insert s (t ` {..<Suc n}) = insert (t n) (insert s (t ` {..<n}))"
      by (auto simp: lessThan_Suc)
    then show ?thesis by (simp add: max.commute)
  qed
  ultimately show ?case by (simp add: loop_append)
qed

lemma index3_nat:
  "c < length t \<Longrightarrow> y < length (t ! c) \<Longrightarrow> x < length (t ! c ! y) \<Longrightarrow>
   index3 t (int c) (int y) (int x) = Inr (t ! c ! y ! x)"
  by (simp add: index3_def)

lemma window_fits:
  fixes y S P h :: nat
  assumes "y < (h - P) div S + 1" "P \<le> h" "ky < P"
  shows "y * S + ky < h"
proof -
  from assms(1) have "y \<le> (h - P) div S" by simp
  then have "y * S \<le> (h - P) div S * S" by (rule mult_le_mono1)
  also have "\<dots> \<le> h - P" by simp
  finally show ?thesis using assms(2,3) by simp
qed

lemma map3_shape:
  fixes V :: "nat \<Rightarrow> nat \<Rightarrow> nat \<Rightarrow> 'a"
  defines "t \<equiv> \<lambda>C H W. map (\<lambda>c. map (\<lambda>y. map (\<lambda>x. V c y x) [0..<W]) [0..<H]) [0..<C]"
  shows "length (t C H W) = C"
    and "c < C \<Longrightarrow> length (t C H W ! c) = H"
    and "c < C \<Longrightarrow> y < H \<Longrightarrow> length (t C H W ! c ! y) = W"
    and "c < C \<Longrightarrow> y < H \<Longrightarrow> x < W \<Longrightarrow> t C H W ! c ! y ! x = V c y x"
  by (simp_all add: t_def)


text \<open>Which panic a loop nest raises, and that it raises one.\<close>

lemma ipo_Inr [simp]: "index_panic_only (Inr x)"
  by (simp add: index_panic_only_def)

lemma ipo_Inl [simp]: "index_panic_only (Inl e) \<longleftrightarrow> e = IndexOutOfRange"
  by (simp add: index_panic_only_def)

lemma ipo_index [simp]: "index_panic_only (index xs i)"
  by (simp add: index_panic_only_def index_def)

lemma ipo_and_then:
  "index_panic_only m \<Longrightarrow> (\<And>x. index_panic_only (f x)) \<Longrightarrow> index_panic_only (and_then m f)"
  by (cases m) simp_all

lemma ipo_loop:
  "(\<And>s x. index_panic_only (f s x)) \<Longrightarrow> index_panic_only (loop f xs s)"
proof (induction xs arbitrary: s)
  case Nil
  show ?case by simp
next
  case (Cons x xs)
  show ?case
  proof (cases "f s x")
    case (Inl e)
    with Cons.prems [of s x] show ?thesis by simp
  next
    case (Inr s')
    with Cons.IH [OF Cons.prems] show ?thesis by simp
  qed
qed

lemma ipo_for_each:
  "(\<And>x. index_panic_only (f x)) \<Longrightarrow> index_panic_only (for_each f xs)"
proof (induction xs)
  case Nil
  show ?case by simp
next
  case (Cons x xs)
  show ?case
  proof (cases "f x")
    case (Inl e)
    with Cons.prems [of x] show ?thesis by simp
  next
    case (Inr y)
    with Cons.IH [OF Cons.prems] show ?thesis
      by (cases "for_each f xs") (simp_all add: index_panic_only_def)
  qed
qed

lemma ipo_fails: "index_panic_only m \<Longrightarrow> \<exists>e. m = Inl e \<Longrightarrow> m = Inl IndexOutOfRange"
  by (auto simp: index_panic_only_def)

lemma and_then_fails: "\<exists>e. m = Inl e \<Longrightarrow> \<exists>e. and_then m f = Inl e"
  by auto

lemma loop_fails:
  "x \<in> set xs \<Longrightarrow> (\<And>s. \<exists>e. f s x = Inl e) \<Longrightarrow> \<exists>e. loop f xs s = Inl e"
proof (induction xs arbitrary: s)
  case Nil
  then show ?case by simp
next
  case (Cons y ys)
  show ?case
  proof (cases "f s y")
    case (Inl e)
    then show ?thesis by simp
  next
    case (Inr s')
    with Cons.prems(2) [of s] have "x \<noteq> y" by auto
    with Cons.prems(1) have "x \<in> set ys" by simp
    from Cons.IH [OF this Cons.prems(2)] Inr show ?thesis by simp
  qed
qed

lemma for_each_fails:
  "x \<in> set xs \<Longrightarrow> \<exists>e. f x = Inl e \<Longrightarrow> \<exists>e. for_each f xs = Inl e"
proof (induction xs)
  case Nil
  then show ?case by simp
next
  case (Cons y ys)
  show ?case
  proof (cases "f y")
    case (Inl e)
    then show ?thesis by simp
  next
    case (Inr v)
    with Cons.prems(2) have "x \<noteq> y" by auto
    with Cons.prems(1) have "x \<in> set ys" by simp
    from Cons.IH [OF this Cons.prems(2)] obtain e where "for_each f ys = Inl e" by blast
    with Inr show ?thesis by simp
  qed
qed

lemma zero_mem_upto: "0 < n \<Longrightarrow> (0::int) \<in> set (map int [0..<n])"
  by (auto intro: image_eqI [of _ _ 0])


section \<open>Zero padding\<close>

lemma copy_at_row:
  "copy_at (replicate (length r + 2 * P) (0::real)) (int P) r
     = Inr (replicate P 0 @ r @ replicate P 0)"
proof -
  have "min (length r + 2 * P - P) (length r) = length r" by simp
  moreover have "drop (P + length r) (replicate (length r + 2 * P) (0::real)) = replicate P 0"
    by simp
  moreover have "take P (replicate (length r + 2 * P) (0::real)) = replicate P 0"
    by simp
  ultimately show ?thesis
    by (simp add: copy_at_def Let_def del: drop_replicate take_replicate)
qed


lemma pad2D_rows:
  assumes ne: "g \<noteq> []" and rect: "\<forall>r \<in> set g. length r = w" and pos: "0 < P"
  shows "\<exists>padded. pad2D g (int P) = Inr padded \<and> length padded = length g + 2 * P \<and>
           (\<forall>i < length g + 2 * P. padded ! i =
              (if P \<le> i \<and> i < P + length g then replicate P 0 @ g ! (i - P) @ replicate P 0
               else replicate (w + 2 * P) 0))"
proof -
  define h where "h = length g"
  define z where "z = replicate (w + 2 * P) (0::real)"
  define row where "row = (\<lambda>i. replicate P (0::real) @ g ! (i - P) @ replicate P 0)"
  define Inv where "Inv = (\<lambda>k (s::real list list). length s = h + 2 * P \<and>
     (\<forall>i < h + 2 * P. s ! i = (if P \<le> i \<and> i < P + k then row i else z)))"
  define step where "step = (\<lambda>(padded::real list list) i.
     and_then (index padded (i + int P)) (\<lambda>dst.
     and_then (index g i) (\<lambda>src.
     and_then (copy_at dst (int P) src) (\<lambda>dst'.
     Inr (padded[nat (i + int P) := dst'])))))"
  have st: "\<exists>s'. step s (int k) = Inr s' \<and> Inv (Suc k) s'" if "k < h" "Inv k s" for k s
  proof -
    from that have len: "length s = h + 2 * P" and sk: "s ! (k + P) = z"
      by (simp_all add: Inv_def)
    from that(1) have gk: "g ! k \<in> set g" by (simp add: h_def)
    with rect have lk: "length (g ! k) = w" by blast
    have cp: "copy_at z (int P) (g ! k) = Inr (row (k + P))"
      using copy_at_row [of "g ! k" P] by (simp add: z_def row_def lk)
    have nn: "nat (int k + int P) = k + P" by simp
    have "step s (int k) = Inr (s[k + P := row (k + P)])"
      unfolding step_def using that(1) len sk cp by (simp add: h_def nn del: of_nat_add)
    moreover have "Inv (Suc k) (s[k + P := row (k + P)])"
      unfolding Inv_def
    proof (intro conjI allI impI)
      show "length (s[k + P := row (k + P)]) = h + 2 * P" using len by simp
    next
      fix i
      assume i: "i < h + 2 * P"
      show "s[k + P := row (k + P)] ! i = (if P \<le> i \<and> i < P + Suc k then row i else z)"
      proof (cases "i = k + P")
        case True
        then show ?thesis using len that(1) by simp
      next
        case False
        then have "i < P + Suc k \<longleftrightarrow> i < P + k" by auto
        with False that(2) i show ?thesis by (simp add: Inv_def)
      qed
    qed
    ultimately show ?thesis by blast
  qed
  have "Inv 0 (replicate (h + 2 * P) z)" by (auto simp: Inv_def)
  from loop_upto_invariant [of h Inv step, OF st this]
  obtain s' where s': "loop step (map int [0..<h]) (replicate (h + 2 * P) z) = Inr s'" "Inv h s'"
    by blast
  have i0: "index g 0 = Inr (g ! 0)" using ne by (simp add: index_def)
  from ne rect have l0: "length (g ! 0) = w" by (cases g) simp_all
  have mk: "make2D (int (length g) + 2 * int P) (int w + 2 * int P) = Inr (replicate (h + 2 * P) z)"
    using make2D_nat [of "h + 2 * P" "w + 2 * P"] by (simp add: h_def z_def)
  have "pad2D g (int P) = Inr s'"
    unfolding pad2D_def Let_def using pos s'(1)
    by (simp add: i0 l0 mk step_def h_def)
  with s'(2) show ?thesis unfolding Inv_def h_def row_def z_def by blast
qed


text \<open>
  With a non-zero padding the source reads \<^verbatim>\<open>len(input[0])\<close>, so a grid without rows
  panics; a grid of height \<open>h\<close> and width \<open>w\<close> below is one with at least one row.
\<close>

lemma pad2D_no_rows: "p \<noteq> 0 \<Longrightarrow> pad2D [] p = Inl IndexOutOfRange"
  by (simp add: pad2D_def index_def)

text \<open>
  Claim C5. Padding by 0 returns the grid itself. For a grid of \<open>h \<ge> 1\<close> rows of equal
  length \<open>w\<close> and a padding \<open>p \<ge> 0\<close>, \<^verbatim>\<open>pad2D\<close> returns a grid of \<open>h + 2p\<close> rows of
  length \<open>w + 2p\<close> with \<open>padded[p+i][p+j] = original[i][j]\<close> for \<open>i < h\<close>, \<open>j < w\<close>, and
  with zero in the \<open>p\<close> rows and columns of the border on every side.
\<close>

theorem pad2D_spec:
  "pad2D g 0 = Inr g \<and>
   (g \<noteq> [] \<and> (\<forall>r \<in> set g. length r = w) \<and> 0 \<le> p \<longrightarrow>
     (\<exists>padded. pad2D g p = Inr padded
        \<and> length padded = length g + 2 * nat p
        \<and> (\<forall>i < length g + 2 * nat p. length (padded ! i) = w + 2 * nat p)
        \<and> (\<forall>i < length g. \<forall>j < w. padded ! (nat p + i) ! (nat p + j) = g ! i ! j)
        \<and> (\<forall>i < length g + 2 * nat p. \<forall>j < w + 2 * nat p.
              i < nat p \<or> nat p + length g \<le> i \<or> j < nat p \<or> nat p + w \<le> j
              \<longrightarrow> padded ! i ! j = 0)))"
proof (intro conjI impI)
  show "pad2D g 0 = Inr g" by (simp add: pad2D_def)
next
  assume "g \<noteq> [] \<and> (\<forall>r \<in> set g. length r = w) \<and> 0 \<le> p"
  then have ne: "g \<noteq> []" and rect: "\<forall>r \<in> set g. length r = w" and p: "0 \<le> p"
    by simp_all
  define P where "P = nat p"
  with p have pP: "p = int P" by simp
  show "\<exists>padded. pad2D g p = Inr padded
        \<and> length padded = length g + 2 * nat p
        \<and> (\<forall>i < length g + 2 * nat p. length (padded ! i) = w + 2 * nat p)
        \<and> (\<forall>i < length g. \<forall>j < w. padded ! (nat p + i) ! (nat p + j) = g ! i ! j)
        \<and> (\<forall>i < length g + 2 * nat p. \<forall>j < w + 2 * nat p.
              i < nat p \<or> nat p + length g \<le> i \<or> j < nat p \<or> nat p + w \<le> j
              \<longrightarrow> padded ! i ! j = 0)"
  proof (cases "P = 0")
    case True
    have "pad2D g p = Inr g" using True pP by (simp add: pad2D_def)
    moreover have "\<forall>i < length g. length (g ! i) = w" using rect by simp
    ultimately show ?thesis using True pP by simp
  next
    case False
    then have "0 < P" by simp
    from pad2D_rows [OF ne rect this]
    obtain padded where pd: "pad2D g (int P) = Inr padded" "length padded = length g + 2 * P"
      and rows: "\<And>i. i < length g + 2 * P \<Longrightarrow> padded ! i =
              (if P \<le> i \<and> i < P + length g then replicate P 0 @ g ! (i - P) @ replicate P 0
               else replicate (w + 2 * P) 0)"
      by blast
    have lg: "length (g ! i) = w" if "i < length g" for i using rect that by simp
    have a: "length (padded ! i) = w + 2 * P" if "i < length g + 2 * P" for i
      using rows [OF that] lg [of "i - P"] by auto
    have b: "padded ! (P + i) ! (P + j) = g ! i ! j" if "i < length g" "j < w" for i j
      using rows [of "P + i"] that lg [OF that(1)] by (simp add: nth_append)
    have c: "padded ! i ! j = 0"
      if "i < length g + 2 * P" "j < w + 2 * P"
        "i < P \<or> P + length g \<le> i \<or> j < P \<or> P + w \<le> j" for i j
    proof (cases "P \<le> i \<and> i < P + length g")
      case True
      then have "i - P < length g" by auto
      from lg [OF this] rows [OF that(1)] True that(2,3) show ?thesis
        by (auto simp: nth_append)
    next
      case False
      with rows [OF that(1)] that(2) show ?thesis by simp
    qed
    from pd a b c show ?thesis unfolding pP nat_int by blast
  qed
qed

theorem pad2D_spec_witness:
  "[[1, 2], [3, 4]] \<noteq> ([]::real list list)
   \<and> list_all (\<lambda>r. length r = 2) [[1, 2], [3, 4::real]] \<and> (0::int) \<le> 1
   \<and> (\<exists>padded. pad2D [[1, 2], [3, 4]] 1 = Inr padded \<and> length padded = 4
        \<and> length (padded ! 3) = 4 \<and> padded ! 1 ! 1 = 1 \<and> padded ! 2 ! 2 = 4
        \<and> padded ! 0 ! 1 = 0 \<and> padded ! 2 ! 3 = 0)"
proof -
  have h: "[[1, 2], [3, 4]] \<noteq> ([]::real list list)
      \<and> (\<forall>r \<in> set [[1, 2], [3, 4::real]]. length r = 2) \<and> (0::int) \<le> 1"
    by simp
  from pad2D_spec [of "[[1, 2], [3, 4]]" 2 1, THEN conjunct2, rule_format, OF h]
  obtain padded where pd: "pad2D [[1, 2], [3, 4]] 1 = Inr padded"
    "length padded = length [[1, 2], [3, 4::real]] + 2 * nat 1"
    "\<forall>i < length [[1, 2], [3, 4::real]] + 2 * nat 1. length (padded ! i) = 2 + 2 * nat 1"
    "\<forall>i < length [[1, 2], [3, 4::real]]. \<forall>j < 2.
        padded ! (nat 1 + i) ! (nat 1 + j) = [[1, 2], [3, 4]] ! i ! j"
    "\<forall>i < length [[1, 2], [3, 4::real]] + 2 * nat 1. \<forall>j < 2 + 2 * nat 1.
        i < nat 1 \<or> nat 1 + length [[1, 2], [3, 4::real]] \<le> i \<or> j < nat 1 \<or> nat 1 + 2 \<le> j
        \<longrightarrow> padded ! i ! j = 0"
    by blast
  from pd(2) have "length padded = 4" by simp
  moreover from pd(3) [rule_format, of 3] have "length (padded ! 3) = 4" by simp
  moreover from pd(4) [rule_format, of 0 0] have "padded ! 1 ! 1 = 1" by simp
  moreover from pd(4) [rule_format, of 1 1] have "padded ! 2 ! 2 = 4"
    by (simp add: numeral_2_eq_2)
  moreover from pd(5) [rule_format, of 0 1] have "padded ! 0 ! 1 = 0" by simp
  moreover from pd(5) [rule_format, of 2 3] have "padded ! 2 ! 3 = 0" by simp
  ultimately show ?thesis using pd(1) by simp
qed


section \<open>Convolution layer\<close>

lemma pad2D_shape:
  assumes ne: "g \<noteq> []" and rect: "\<forall>r \<in> set g. length r = w"
  shows "\<exists>padded. pad2D g (int p) = Inr padded \<and> length padded = length g + 2 * p
     \<and> (\<forall>i < length g + 2 * p. length (padded ! i) = w + 2 * p)"
proof (cases "p = 0")
  case True
  have "pad2D g (int p) = Inr g" using True by (simp add: pad2D_def)
  moreover have "\<forall>i < length g. length (g ! i) = w" using rect by simp
  ultimately show ?thesis using True by simp
next
  case False
  then have "0 < p" by simp
  from pad2D_rows [OF ne rect this]
  obtain padded where pd: "pad2D g (int p) = Inr padded" "length padded = length g + 2 * p"
    and rows: "\<And>i. i < length g + 2 * p \<Longrightarrow> padded ! i =
            (if p \<le> i \<and> i < p + length g then replicate p 0 @ g ! (i - p) @ replicate p 0
             else replicate (w + 2 * p) 0)"
    by blast
  have lg: "length (g ! i) = w" if "i < length g" for i using rect that by simp
  have "length (padded ! i) = w + 2 * p" if "i < length g + 2 * p" for i
    using rows [OF that] lg [of "i - p"] by auto
  with pd show ?thesis by blast
qed

lemma conv_out_size_nat:
  assumes "K \<le> h + 2 * p" "0 < S"
  shows "conv_out_size (int h) (int p) (int K) (int S) = Inr (int ((h + 2 * p - K) div S + 1))"
proof -
  have "int h + 2 * int p - int K = int (h + 2 * p - K)" using assms(1) by simp
  moreover have "go_div (int (h + 2 * p - K)) (int S) = Inr (int (h + 2 * p - K) div int S)"
    using assms(2) by (intro go_div_nonneg) simp_all
  moreover have "int (h + 2 * p - K) div int S = int ((h + 2 * p - K) div S)"
    by (rule zdiv_int [symmetric])
  ultimately show ?thesis
    unfolding conv_out_size_def by (simp only: and_then_Inr of_nat_add of_nat_1)
qed

lemma conv_cell_value:
  assumes pc: "length padded = C" "\<forall>c < C. length (padded ! c) = H"
      "\<forall>c < C. \<forall>i < H. length (padded ! c ! i) = W"
    and f: "f < length (Filters cl)" "f < length (Biases cl)" "C \<le> length (Filters cl ! f)"
      "\<forall>c < C. length (Filters cl ! f ! c) = KH"
      "\<forall>c < C. \<forall>ky < KH. length (Filters cl ! f ! c ! ky) = KW"
    and st: "Stride cl = int S"
    and y: "y < (H - KH) div S + 1" "KH \<le> H" and x: "x < (W - KW) div S + 1" "KW \<le> W"
  shows "conv_cell cl padded C KH KW (int f) (int y) (int x) =
     Inr (relu ((\<Sum>c<C. \<Sum>ky<KH. \<Sum>kx<KW.
            padded ! c ! (y * S + ky) ! (x * S + kx) * Filters cl ! f ! c ! ky ! kx)
          + Biases cl ! f))"
proof -
  define t where "t = (\<lambda>c ky kx. padded ! c ! (y * S + ky) ! (x * S + kx) * Filters cl ! f ! c ! ky ! kx)"
  have body: "and_then (index padded (int c)) (\<lambda>pc.
              and_then (index pc (int y * int S + int ky)) (\<lambda>prow.
              and_then (index prow (int x * int S + int kx)) (\<lambda>a.
              and_then (index (Filters cl) (int f)) (\<lambda>ff.
              and_then (index ff (int c)) (\<lambda>fc.
              and_then (index fc (int ky)) (\<lambda>frow.
              and_then (index frow (int kx)) (\<lambda>b.
              Inr (acc + a * b)))))))) = Inr (acc + t c ky kx)"
    if "c < C" "ky < KH" "kx < KW" for c ky kx acc
  proof -
    have yk: "y * S + ky < H" by (rule window_fits [OF y that(2)])
    have xk: "x * S + kx < W" by (rule window_fits [OF x that(3)])
    have l1: "length (padded ! c) = H" using pc(2) that(1) by simp
    have l2: "length (padded ! c ! (y * S + ky)) = W" using pc(3) that(1) yk by simp
    have l3: "length (Filters cl ! f ! c) = KH" using f(4) that(1) by simp
    have l4: "length (Filters cl ! f ! c ! ky) = KW" using f(5) that(1,2) by simp
    have i2: "index (padded ! c) (int y * int S + int ky) = Inr (padded ! c ! (y * S + ky))"
      using index_nat [of "y * S + ky" "padded ! c"] l1 yk by simp
    have i3: "index (padded ! c ! (y * S + ky)) (int x * int S + int kx)
        = Inr (padded ! c ! (y * S + ky) ! (x * S + kx))"
      using index_nat [of "x * S + kx" "padded ! c ! (y * S + ky)"] l2 xk by simp
    have l0: "c < length (Filters cl ! f)" using f(3) that(1) by simp
    show ?thesis
      using that f(1) by (simp add: pc(1) i2 i3 l0 l3 l4 t_def)
  qed
  have inner: "loop (\<lambda>sum kx.
              and_then (index padded (int c)) (\<lambda>pc.
              and_then (index pc (int y * int S + int ky)) (\<lambda>prow.
              and_then (index prow (int x * int S + kx)) (\<lambda>a.
              and_then (index (Filters cl) (int f)) (\<lambda>ff.
              and_then (index ff (int c)) (\<lambda>fc.
              and_then (index fc (int ky)) (\<lambda>frow.
              and_then (index frow kx) (\<lambda>b.
              Inr (sum + a * b))))))))) (map int [0..<KW]) acc
       = Inr (acc + (\<Sum>kx<KW. t c ky kx))"
    if "c < C" "ky < KH" for c ky acc
    by (rule loop_sum_upto) (rule body [OF that])
  have middle: "loop (\<lambda>sum ky. loop (\<lambda>sum kx.
              and_then (index padded (int c)) (\<lambda>pc.
              and_then (index pc (int y * int S + ky)) (\<lambda>prow.
              and_then (index prow (int x * int S + kx)) (\<lambda>a.
              and_then (index (Filters cl) (int f)) (\<lambda>ff.
              and_then (index ff (int c)) (\<lambda>fc.
              and_then (index fc ky) (\<lambda>frow.
              and_then (index frow kx) (\<lambda>b.
              Inr (sum + a * b))))))))) (map int [0..<KW]) sum) (map int [0..<KH]) acc
       = Inr (acc + (\<Sum>ky<KH. \<Sum>kx<KW. t c ky kx))"
    if "c < C" for c acc
    by (rule loop_sum_upto) (rule inner [OF that])
  have outer: "loop (\<lambda>sum c. loop (\<lambda>sum ky. loop (\<lambda>sum kx.
              and_then (index padded c) (\<lambda>pc.
              and_then (index pc (int y * int S + ky)) (\<lambda>prow.
              and_then (index prow (int x * int S + kx)) (\<lambda>a.
              and_then (index (Filters cl) (int f)) (\<lambda>ff.
              and_then (index ff c) (\<lambda>fc.
              and_then (index fc ky) (\<lambda>frow.
              and_then (index frow kx) (\<lambda>b.
              Inr (sum + a * b))))))))) (map int [0..<KW]) sum) (map int [0..<KH]) sum)
            (map int [0..<C]) 0
       = Inr (0 + (\<Sum>c<C. \<Sum>ky<KH. \<Sum>kx<KW. t c ky kx))"
    by (rule loop_sum_upto) (rule middle)
  show ?thesis
    unfolding conv_cell_def Let_def st upto_int_int
    by (simp only: outer and_then_Inr index_nat [OF f(2)] add_0 t_def)
qed


lemma conv_forward_nest:
  assumes flt: "Filters cl \<noteq> []" "\<forall>flt \<in> set (Filters cl). length flt = CF" "0 < CF"
      "\<forall>flt \<in> set (Filters cl). \<forall>k \<in> set flt. length k = KH"
      "\<forall>flt \<in> set (Filters cl). \<forall>k \<in> set flt. \<forall>row \<in> set k. length row = KW"
    and inp: "input \<noteq> []" "\<forall>ch \<in> set input. length ch = h"
      "\<forall>ch \<in> set input. \<forall>row \<in> set ch. length row = w" "0 < h"
    and cfg: "Stride cl = int S" "0 < S" "Padding cl = int p"
    and fit: "0 < KH" "KH \<le> h + 2 * p" "KW \<le> w + 2 * p"
  shows "\<exists>padded. length padded = length input
     \<and> (\<forall>c < length input. length (padded ! c) = h + 2 * p)
     \<and> (\<forall>c < length input. \<forall>i < h + 2 * p. length (padded ! c ! i) = w + 2 * p)
     \<and> (\<forall>c < length input. pad2D (input ! c) (Padding cl) = Inr (padded ! c))
     \<and> conv_forward cl input =
         for_each (\<lambda>f. for_each (\<lambda>y. for_each (\<lambda>x.
             conv_cell cl padded (length input) KH KW f y x)
           (map int [0..<(w + 2 * p - KW) div S + 1])) (map int [0..<(h + 2 * p - KH) div S + 1]))
           (map int [0..<length (Filters cl)])"
proof -
  let ?C = "length input" and ?N = "length (Filters cl)"
  let ?H = "h + 2 * p" and ?W = "w + 2 * p"
  let ?oh = "(h + 2 * p - KH) div S + 1" and ?ow = "(w + 2 * p - KW) div S + 1"
  \<comment> \<open>the reads of lines 24 to 30\<close>
  from flt(1) have F0: "Filters cl ! 0 \<in> set (Filters cl)" by simp
  with flt(2) have lF0: "length (Filters cl ! 0) = CF" by blast
  with flt(3) have F00: "Filters cl ! 0 ! 0 \<in> set (Filters cl ! 0)" by simp
  with flt(4) F0 have lF00: "length (Filters cl ! 0 ! 0) = KH" by blast
  with fit(1) have "Filters cl ! 0 ! 0 ! 0 \<in> set (Filters cl ! 0 ! 0)" by simp
  with flt(5) F0 F00 have lF000: "length (Filters cl ! 0 ! 0 ! 0) = KW" by blast
  have iF: "index (Filters cl) 0 = Inr (Filters cl ! 0)" using flt(1) by (simp add: index_def)
  have iF0: "index (Filters cl ! 0) 0 = Inr (Filters cl ! 0 ! 0)"
    using lF0 flt(3) by (simp add: index_def)
  have iF00: "index (Filters cl ! 0 ! 0) 0 = Inr (Filters cl ! 0 ! 0 ! 0)"
    using lF00 fit(1) by (simp add: index_def)
  from inp(1) have in0: "input ! 0 \<in> set input" by simp
  with inp(2) have l0: "length (input ! 0) = h" by blast
  with inp(4) have "input ! 0 ! 0 \<in> set (input ! 0)" by simp
  with inp(3) in0 have l00: "length (input ! 0 ! 0) = w" by blast
  have i0: "index input 0 = Inr (input ! 0)" using inp(1) by (simp add: index_def)
  have i00: "index (input ! 0) 0 = Inr (input ! 0 ! 0)" using l0 inp(4) by (simp add: index_def)
  \<comment> \<open>the allocation of the output\<close>
  have alloc: "for_each (\<lambda>_. make2D (int ?oh) (int ?ow)) (map int [0..<?N])
      = Inr (map (\<lambda>_. replicate ?oh (replicate ?ow 0)) (map int [0..<?N]))"
    unfolding make2D_nat by (rule for_each_const)
  \<comment> \<open>the padded channels\<close>
  have "\<exists>pd. c < ?C \<longrightarrow> pad2D (input ! c) (int p) = Inr pd \<and> length pd = ?H
      \<and> (\<forall>i < ?H. length (pd ! i) = ?W)" for c
  proof (cases "c < ?C")
    case True
    then have ch: "input ! c \<in> set input" by simp
    with inp(2,4) have "input ! c \<noteq> []" "length (input ! c) = h" by auto
    moreover from ch inp(3) have "\<forall>row \<in> set (input ! c). length row = w" by blast
    ultimately show ?thesis using pad2D_shape [of "input ! c" w p] by auto
  next
    case False
    then show ?thesis by simp
  qed
  then obtain pf where pf: "\<And>c. c < ?C \<Longrightarrow> pad2D (input ! c) (int p) = Inr (pf c)
      \<and> length (pf c) = ?H \<and> (\<forall>i < ?H. length (pf c ! i) = ?W)"
    by metis
  define padded where "padded = map pf [0..<?C]"
  have pads: "for_each (\<lambda>c. and_then (index input c) (\<lambda>ch. pad2D ch (int p))) (map int [0..<?C])
      = Inr padded"
    unfolding padded_def by (rule for_each_upto) (simp add: pf)
  have pc: "length padded = ?C" "\<forall>c < ?C. length (padded ! c) = ?H"
    "\<forall>c < ?C. \<forall>i < ?H. length (padded ! c ! i) = ?W"
    using pf by (simp_all add: padded_def)
  have pp: "\<forall>c < ?C. pad2D (input ! c) (Padding cl) = Inr (padded ! c)"
    using pf by (simp add: padded_def cfg(3))
  have "conv_forward cl input =
      for_each (\<lambda>f. for_each (\<lambda>y. for_each (\<lambda>x. conv_cell cl padded ?C KH KW f y x)
        (map int [0..<?ow])) (map int [0..<?oh])) (map int [0..<?N])"
    unfolding conv_forward_def Let_def cfg
    by (simp only: iF iF0 iF00 lF00 lF000 i0 i00 l0 l00 and_then_Inr
        conv_out_size_nat [OF fit(2) cfg(2)] conv_out_size_nat [OF fit(3) cfg(2)]
        upto_int_int alloc pads)
  with pc pp show ?thesis by blast
qed

lemma conv_forward_value:
  assumes flt: "Filters cl \<noteq> []" "\<forall>flt \<in> set (Filters cl). length flt = CF" "0 < CF"
      "\<forall>flt \<in> set (Filters cl). \<forall>k \<in> set flt. length k = KH"
      "\<forall>flt \<in> set (Filters cl). \<forall>k \<in> set flt. \<forall>row \<in> set k. length row = KW"
    and inp: "input \<noteq> []" "\<forall>ch \<in> set input. length ch = h"
      "\<forall>ch \<in> set input. \<forall>row \<in> set ch. length row = w" "0 < h"
    and cfg: "Stride cl = int S" "0 < S" "Padding cl = int p"
    and fit: "0 < KH" "KH \<le> h + 2 * p" "KW \<le> w + 2 * p"
    and bias: "length (Biases cl) = length (Filters cl)"
    and chans: "length input \<le> CF"
  shows "\<exists>padded. length padded = length input
     \<and> (\<forall>c < length input. pad2D (input ! c) (Padding cl) = Inr (padded ! c))
     \<and> conv_forward cl input =
         Inr (map (\<lambda>f. map (\<lambda>y. map (\<lambda>x.
                relu ((\<Sum>c<length input. \<Sum>ky<KH. \<Sum>kx<KW.
                        padded ! c ! (y * S + ky) ! (x * S + kx) * Filters cl ! f ! c ! ky ! kx)
                      + Biases cl ! f))
              [0..<(w + 2 * p - KW) div S + 1]) [0..<(h + 2 * p - KH) div S + 1])
              [0..<length (Filters cl)])"
proof -
  let ?C = "length input" and ?N = "length (Filters cl)"
  let ?H = "h + 2 * p" and ?W = "w + 2 * p"
  let ?oh = "(h + 2 * p - KH) div S + 1" and ?ow = "(w + 2 * p - KW) div S + 1"
  from conv_forward_nest [OF flt inp cfg fit] obtain padded where
    pc: "length padded = ?C" "\<forall>c < ?C. length (padded ! c) = ?H"
      "\<forall>c < ?C. \<forall>i < ?H. length (padded ! c ! i) = ?W"
    and pp: "\<forall>c < ?C. pad2D (input ! c) (Padding cl) = Inr (padded ! c)"
    and nest: "conv_forward cl input =
      for_each (\<lambda>f. for_each (\<lambda>y. for_each (\<lambda>x. conv_cell cl padded ?C KH KW f y x)
        (map int [0..<?ow])) (map int [0..<?oh])) (map int [0..<?N])"
    by blast
  let ?V = "\<lambda>f y x. relu ((\<Sum>c<?C. \<Sum>ky<KH. \<Sum>kx<KW.
       padded ! c ! (y * S + ky) ! (x * S + kx) * Filters cl ! f ! c ! ky ! kx) + Biases cl ! f)"
  have cells: "for_each (\<lambda>f. for_each (\<lambda>y. for_each (\<lambda>x. conv_cell cl padded ?C KH KW f y x)
        (map int [0..<?ow])) (map int [0..<?oh])) (map int [0..<?N])
      = Inr (map (\<lambda>f. map (\<lambda>y. map (\<lambda>x. ?V f y x) [0..<?ow]) [0..<?oh]) [0..<?N])"
  proof (intro for_each_upto)
    fix f y x
    assume f: "f < ?N" and y: "y < ?oh" and x: "x < ?ow"
    from f have ff: "Filters cl ! f \<in> set (Filters cl)" by simp
    with flt(2) have lf: "length (Filters cl ! f) = CF" by blast
    with chans have a: "?C \<le> length (Filters cl ! f)" by simp
    have b: "\<forall>c < ?C. length (Filters cl ! f ! c) = KH"
    proof (intro allI impI)
      fix c
      assume "c < ?C"
      with a have "Filters cl ! f ! c \<in> set (Filters cl ! f)" by simp
      with flt(4) ff show "length (Filters cl ! f ! c) = KH" by blast
    qed
    have c: "\<forall>c < ?C. \<forall>ky < KH. length (Filters cl ! f ! c ! ky) = KW"
    proof (intro allI impI)
      fix c ky
      assume "c < ?C" "ky < KH"
      with a b have "Filters cl ! f ! c \<in> set (Filters cl ! f)"
        "Filters cl ! f ! c ! ky \<in> set (Filters cl ! f ! c)" by simp_all
      with flt(5) ff show "length (Filters cl ! f ! c ! ky) = KW" by blast
    qed
    from f bias have fb: "f < length (Biases cl)" by simp
    show "conv_cell cl padded ?C KH KW (int f) (int y) (int x) = Inr (?V f y x)"
      by (rule conv_cell_value [OF pc f fb a b c cfg(1) y fit(2) x fit(3)])
  qed
  from nest cells pc(1) pp show ?thesis by (simp only:) blast
qed

text \<open>
  Claim C1. Take a filter bank of at least one filter, every filter with as many
  channels as the input and every kernel of \<open>KH \<ge> 1\<close> rows of length \<open>KW\<close>, one bias per
  filter, a stride \<open>S \<ge> 1\<close>, a padding \<open>p \<ge> 0\<close>, and an input of at least one channel, all
  channels of \<open>h \<ge> 1\<close> rows of length \<open>w\<close>, into whose padded size the kernel fits. Then the
  convolution layer returns one channel per filter, of the size of the shape arithmetic, and
  \<open>out[f][y][x] = relu(bias[f] + \<Sum>c ky kx. padded[c][y*S+ky][x*S+kx] * filter[f][c][ky][kx])\<close>
  where \<open>padded[c]\<close> is the result of \<^verbatim>\<open>pad2D\<close> on channel \<open>c\<close>.
\<close>

theorem conv_forward_spec:
  assumes "Filters cl \<noteq> []" and "\<forall>flt \<in> set (Filters cl). length flt = length input"
    and "\<forall>flt \<in> set (Filters cl). \<forall>k \<in> set flt. length k = KH"
    and "\<forall>flt \<in> set (Filters cl). \<forall>k \<in> set flt. \<forall>row \<in> set k. length row = KW"
    and "length (Biases cl) = length (Filters cl)"
    and "input \<noteq> []" and "\<forall>ch \<in> set input. length ch = h"
    and "\<forall>ch \<in> set input. \<forall>row \<in> set ch. length row = w" and "0 < h"
    and "Stride cl = int S" and "0 < S" and "Padding cl = int p"
    and "0 < KH" and "KH \<le> h + 2 * p" and "KW \<le> w + 2 * p"
  shows "\<exists>padded out. length padded = length input
     \<and> (\<forall>c < length input. pad2D (input ! c) (Padding cl) = Inr (padded ! c))
     \<and> conv_forward cl input = Inr out
     \<and> length out = length (Filters cl)
     \<and> (\<forall>f < length (Filters cl). length (out ! f) = (h + 2 * p - KH) div S + 1 \<and>
          (\<forall>y < (h + 2 * p - KH) div S + 1. length (out ! f ! y) = (w + 2 * p - KW) div S + 1 \<and>
             (\<forall>x < (w + 2 * p - KW) div S + 1.
                out ! f ! y ! x =
                  relu (Biases cl ! f +
                    (\<Sum>c<length input. \<Sum>ky<KH. \<Sum>kx<KW.
                       padded ! c ! (y * S + ky) ! (x * S + kx) * Filters cl ! f ! c ! ky ! kx)))))"
proof -
  from assms(6,2) have cf0: "0 < length input" by simp
  from conv_forward_value [OF assms(1,2) cf0 assms(3,4) assms(6-15) assms(5) order_refl]
  obtain padded where
    pd: "length padded = length input"
      "\<forall>c < length input. pad2D (input ! c) (Padding cl) = Inr (padded ! c)"
    and cf: "conv_forward cl input =
         Inr (map (\<lambda>f. map (\<lambda>y. map (\<lambda>x.
                relu ((\<Sum>c<length input. \<Sum>ky<KH. \<Sum>kx<KW.
                        padded ! c ! (y * S + ky) ! (x * S + kx) * Filters cl ! f ! c ! ky ! kx)
                      + Biases cl ! f))
              [0..<(w + 2 * p - KW) div S + 1]) [0..<(h + 2 * p - KH) div S + 1])
              [0..<length (Filters cl)])"
    by blast
  let ?V = "\<lambda>f y x. relu ((\<Sum>c<length input. \<Sum>ky<KH. \<Sum>kx<KW.
       padded ! c ! (y * S + ky) ! (x * S + kx) * Filters cl ! f ! c ! ky ! kx) + Biases cl ! f)"
  define out where "out = map (\<lambda>f. map (\<lambda>y. map (\<lambda>x. ?V f y x)
      [0..<(w + 2 * p - KW) div S + 1]) [0..<(h + 2 * p - KH) div S + 1]) [0..<length (Filters cl)]"
  have 1: "conv_forward cl input = Inr out" unfolding out_def by (rule cf)
  have 2: "length out = length (Filters cl)" unfolding out_def by (rule map3_shape(1))
  have 3: "length (out ! f) = (h + 2 * p - KH) div S + 1" if "f < length (Filters cl)" for f
    unfolding out_def using that by (rule map3_shape(2))
  have 4: "length (out ! f ! y) = (w + 2 * p - KW) div S + 1"
    if "f < length (Filters cl)" "y < (h + 2 * p - KH) div S + 1" for f y
    unfolding out_def using that by (rule map3_shape(3))
  have "out ! f ! y ! x = ?V f y x"
    if "f < length (Filters cl)" "y < (h + 2 * p - KH) div S + 1"
      "x < (w + 2 * p - KW) div S + 1" for f y x
    unfolding out_def using that by (rule map3_shape(4))
  then have 5: "out ! f ! y ! x = relu (Biases cl ! f +
        (\<Sum>c<length input. \<Sum>ky<KH. \<Sum>kx<KW.
           padded ! c ! (y * S + ky) ! (x * S + kx) * Filters cl ! f ! c ! ky ! kx))"
    if "f < length (Filters cl)" "y < (h + 2 * p - KH) div S + 1"
      "x < (w + 2 * p - KW) div S + 1" for f y x
    using that by (simp only: add.commute)
  show ?thesis
    by (rule exI [of _ padded], rule exI [of _ out], intro conjI allI impI)
       (simp_all only: pd 1 2 3 4 5)
qed

theorem conv_forward_spec_witness:
  "Filters \<lparr>Filters = [[[[2]], [[3]]]], Biases = [-1], Stride = 1, Padding = 1\<rparr> \<noteq> []
   \<and> list_all (\<lambda>flt. length flt = length [[[1, 2], [3, 4]], [[2, 0], [1, 1::real]]])
        (Filters \<lparr>Filters = [[[[2]], [[3]]]], Biases = [-1], Stride = 1, Padding = 1\<rparr>)
   \<and> [[[1, 2], [3, 4]], [[2, 0], [1, 1]]] \<noteq> ([]::real list list list)
   \<and> list_all (\<lambda>ch. length ch = 2) [[[1, 2], [3, 4]], [[2, 0], [1, 1::real]]]
   \<and> (\<exists>out. conv_forward \<lparr>Filters = [[[[2]], [[3]]]], Biases = [-1], Stride = 1, Padding = 1\<rparr>
          [[[1, 2], [3, 4]], [[2, 0], [1, 1]]] = Inr out
        \<and> length out = 1 \<and> length (out ! 0) = 4 \<and> length (out ! 0 ! 3) = 4
        \<and> out ! 0 ! 1 ! 1 = 7 \<and> out ! 0 ! 0 ! 0 = 0)"
proof -
  let ?cl = "\<lparr>Filters = [[[[2]], [[3]]]], Biases = [-1::real], Stride = 1, Padding = 1\<rparr>"
  let ?t = "[[[1, 2], [3, 4]], [[2, 0], [1, 1::real]]]"
  have h1: "Filters ?cl \<noteq> []" by simp
  have h2: "\<forall>flt \<in> set (Filters ?cl). length flt = length ?t" by simp
  have h3: "\<forall>flt \<in> set (Filters ?cl). \<forall>k \<in> set flt. length k = 1" by simp
  have h4: "\<forall>flt \<in> set (Filters ?cl). \<forall>k \<in> set flt. \<forall>row \<in> set k. length row = 1" by simp
  have h5: "length (Biases ?cl) = length (Filters ?cl)" by simp
  have h6: "?t \<noteq> []" by simp
  have h7: "\<forall>ch \<in> set ?t. length ch = 2" by simp
  have h8: "\<forall>ch \<in> set ?t. \<forall>row \<in> set ch. length row = 2" by simp
  have h9: "(0::nat) < 2" "Stride ?cl = int 1" "(0::nat) < 1" "Padding ?cl = int 1"
    "(1::nat) \<le> 2 + 2 * 1" by simp_all
  have d: "(2 + 2 * 1 - 1) div 1 + 1 = (4::nat)" by simp
  from conv_forward_spec [OF h1 h2 h3 h4 h5 h6 h7 h8 h9(1) h9(2) h9(3) h9(4) h9(3) h9(5) h9(5),
      unfolded d]
  obtain padded out where
    pd: "\<forall>c < length ?t. pad2D (?t ! c) (Padding ?cl) = Inr (padded ! c)"
    and o: "conv_forward ?cl ?t = Inr out" "length out = length (Filters ?cl)"
    and cells: "\<forall>f < length (Filters ?cl). length (out ! f) = 4 \<and>
          (\<forall>y < 4. length (out ! f ! y) = 4 \<and>
             (\<forall>x < 4.
                out ! f ! y ! x =
                  relu (Biases ?cl ! f +
                    (\<Sum>c<length ?t. \<Sum>ky<1. \<Sum>kx<1.
                       padded ! c ! (y * 1 + ky) ! (x * 1 + kx) * Filters ?cl ! f ! c ! ky ! kx))))"
    by blast
  have "pad2D (?t ! 0) (Padding ?cl) = Inr [[0, 0, 0, 0], [0, 1, 2, 0], [0, 3, 4, 0], [0, 0, 0, 0]]"
    by code_simp
  with pd [rule_format, of 0]
  have p0: "padded ! 0 = [[0, 0, 0, 0], [0, 1, 2, 0], [0, 3, 4, 0], [0, 0, 0, 0]]" by simp
  have "pad2D (?t ! 1) (Padding ?cl) = Inr [[0, 0, 0, 0], [0, 2, 0, 0], [0, 1, 1, 0], [0, 0, 0, 0]]"
    by code_simp
  with pd [rule_format, of 1]
  have p1: "padded ! 1 = [[0, 0, 0, 0], [0, 2, 0, 0], [0, 1, 1, 0], [0, 0, 0, 0]]" by simp
  from p1 have p1': "padded ! Suc 0 = [[0, 0, 0, 0], [0, 2, 0, 0], [0, 1, 1, 0], [0, 0, 0, 0]]"
    by simp
  have two: "{..<2::nat} = {0, 1}" by auto
  have q: "length (out ! 0) = 4 \<and>
          (\<forall>y < 4. length (out ! 0 ! y) = 4 \<and>
             (\<forall>x < 4.
                out ! 0 ! y ! x =
                  relu (Biases ?cl ! 0 +
                    (\<Sum>c<length ?t. \<Sum>ky<1. \<Sum>kx<1.
                       padded ! c ! (y * 1 + ky) ! (x * 1 + kx) * Filters ?cl ! 0 ! c ! ky ! kx))))"
    by (rule cells [rule_format]) simp
  note r = q [THEN conjunct2, rule_format]
  have l3: "length (out ! 0 ! 3) = 4" by (rule r [of 3, THEN conjunct1]) simp
  have "out ! 0 ! 1 ! 1 = relu (Biases ?cl ! 0 +
      (\<Sum>c<length ?t. \<Sum>ky<1. \<Sum>kx<1.
         padded ! c ! (1 * 1 + ky) ! (1 * 1 + kx) * Filters ?cl ! 0 ! c ! ky ! kx))"
    by (rule r [of 1, THEN conjunct2, rule_format]) simp_all
  then have a: "out ! 0 ! 1 ! 1 = 7" by (simp add: two p0 p1' relu_def)
  have "out ! 0 ! 0 ! 0 = relu (Biases ?cl ! 0 +
      (\<Sum>c<length ?t. \<Sum>ky<1. \<Sum>kx<1.
         padded ! c ! (0 * 1 + ky) ! (0 * 1 + kx) * Filters ?cl ! 0 ! c ! ky ! kx))"
    by (rule r [of 0, THEN conjunct2, rule_format]) simp_all
  then have b: "out ! 0 ! 0 ! 0 = 0" by (simp add: two p0 p1' relu_def)
  from o q [THEN conjunct1] l3 a b show ?thesis by simp
qed


section \<open>The worked example of the convolution\<close>

text \<open>
  Claim C9. On a 1-channel 4 by 4 input of ones, with one 3 by 3 filter of ones, bias 0,
  stride 1 and padding 1, the convolution layer returns one 4 by 4 channel whose corner
  cells are 4, whose other border cells are 6 and whose interior cells are 9.
\<close>

theorem conv_all_ones_4x4:
  "conv_forward \<lparr>Filters = [[replicate 3 (replicate 3 1)]], Biases = [0], Stride = 1, Padding = 1\<rparr>
     [replicate 4 (replicate 4 1)]
   = Inr [[[4, 6, 6, 4], [6, 9, 9, 6], [6, 9, 9, 6], [4, 6, 6, 4]]]"
  by code_simp


section \<open>Max-pooling layer\<close>

lemma pool_out_size_nat:
  assumes "P \<le> h" "0 < S"
  shows "pool_out_size (int h) (int P) (int S) = Inr (int ((h - P) div S + 1))"
proof -
  have "int h - int P = int (h - P)" using assms(1) by simp
  moreover have "go_div (int (h - P)) (int S) = Inr (int (h - P) div int S)"
    using assms(2) by (intro go_div_nonneg) simp_all
  moreover have "int (h - P) div int S = int ((h - P) div S)" by (rule zdiv_int [symmetric])
  ultimately show ?thesis
    unfolding pool_out_size_def by (simp only: and_then_Inr of_nat_add of_nat_1)
qed


lemma Max_rows_eq:
  fixes t :: "nat \<Rightarrow> nat \<Rightarrow> real"
  assumes "0 < P"
  shows "Max (insert (t 0 0) ((\<lambda>ky. Max (t ky ` {..<P})) ` {..<P}))
     = Max ((\<lambda>(ky, kx). t ky kx) ` ({..<P} \<times> {..<P}))"
proof -
  let ?R = "\<lambda>ky. Max (t ky ` {..<P})"
  let ?A = "insert (t 0 0) (?R ` {..<P})"
  let ?W = "(\<lambda>(ky, kx). t ky kx) ` ({..<P} \<times> {..<P})"
  have ne: "{..<P} \<noteq> {}" using assms by auto
  have Rin: "?R ky \<in> ?W" if "ky < P" for ky
  proof -
    have "?R ky \<in> t ky ` {..<P}" by (rule Max_in) (simp_all add: ne)
    then obtain kx where "kx < P" "?R ky = t ky kx" by auto
    with that show ?thesis by (intro image_eqI [of _ _ "(ky, kx)"]) simp_all
  qed
  have "Max ?A \<in> ?A" by (rule Max_in) simp_all
  then have "Max ?A = t 0 0 \<or> (\<exists>ky < P. Max ?A = ?R ky)" by auto
  then have mem: "Max ?A \<in> ?W"
  proof
    assume "Max ?A = t 0 0"
    then show ?thesis using assms by (intro image_eqI [of _ _ "(0, 0)"]) simp_all
  next
    assume "\<exists>ky < P. Max ?A = ?R ky"
    then show ?thesis using Rin by auto
  qed
  have ub: "a \<le> Max ?A" if "a \<in> ?W" for a
  proof -
    from that obtain ky kx where k: "ky < P" "kx < P" "a = t ky kx" by auto
    have "t ky kx \<le> ?R ky" using k(2) by (intro Max_ge) simp_all
    also have "?R ky \<le> Max ?A" using k(1) by (intro Max_ge) simp_all
    finally show ?thesis using k(3) by simp
  qed
  show ?thesis by (rule Max_eqI [symmetric]) (simp, erule ub, rule mem)
qed

lemma pool_cell_value:
  assumes c: "c < length input" and rows: "length (input ! c) = h"
    and cols: "\<forall>row \<in> set (input ! c). length row = w"
    and P: "0 < P" "P \<le> h" "P \<le> w"
    and ps: "PoolSize mpl = int P" "PoolStride mpl = int S"
    and y: "y < (h - P) div S + 1" and x: "x < (w - P) div S + 1"
  shows "pool_cell mpl input (int c) (int y) (int x) =
     Inr (Max ((\<lambda>(ky, kx). input ! c ! (y * S + ky) ! (x * S + kx)) ` ({..<P} \<times> {..<P})))"
proof -
  define t where "t = (\<lambda>ky kx. input ! c ! (y * S + ky) ! (x * S + kx))"
  have rd: "index3 input (int c) (int y * int S + int ky) (int x * int S + int kx) = Inr (t ky kx)"
    if "ky < P" "kx < P" for ky kx
  proof -
    have yk: "y * S + ky < h" by (rule window_fits [OF y P(2) that(1)])
    have xk: "x * S + kx < w" by (rule window_fits [OF x P(3) that(2)])
    from yk rows have "input ! c ! (y * S + ky) \<in> set (input ! c)" by simp
    with cols have "length (input ! c ! (y * S + ky)) = w" by blast
    with index3_nat [of c input "y * S + ky" "x * S + kx"] c rows yk xk
    show ?thesis by (simp add: t_def)
  qed
  have rd0: "index3 input (int c) (int y * int S) (int x * int S) = Inr (t 0 0)"
    using rd [of 0 0] P(1) by simp
  define R where "R = (\<lambda>ky. Max (t ky ` {..<P}))"
  have inner: "loop (\<lambda>maxVal kx.
          and_then (index3 input (int c) (int y * int S + int ky) (int x * int S + kx)) (\<lambda>val.
          Inr (if val > maxVal then val else maxVal))) (map int [0..<P]) m = Inr (max m (R ky))"
    if "ky < P" for ky m
  proof -
    have "loop (\<lambda>maxVal kx.
          and_then (index3 input (int c) (int y * int S + int ky) (int x * int S + kx)) (\<lambda>val.
          Inr (if val > maxVal then val else maxVal))) (map int [0..<P]) m
        = Inr (Max (insert m (t ky ` {..<P})))"
      by (rule loop_max_upto) (auto simp: rd [OF that] max_def)
    moreover have "Max (insert m (t ky ` {..<P})) = max m (R ky)"
      unfolding R_def using P(1) by (intro Max_insert) auto
    ultimately show ?thesis by simp
  qed
  have "loop (\<lambda>maxVal ky. loop (\<lambda>maxVal kx.
          and_then (index3 input (int c) (int y * int S + ky) (int x * int S + kx)) (\<lambda>val.
          Inr (if val > maxVal then val else maxVal))) (map int [0..<P]) maxVal)
        (map int [0..<P]) (t 0 0) = Inr (Max (insert (t 0 0) (R ` {..<P})))"
    by (rule loop_max_upto) (rule inner)
  then have "pool_cell mpl input (int c) (int y) (int x) = Inr (Max (insert (t 0 0) (R ` {..<P})))"
    unfolding pool_cell_def Let_def ps by (simp add: rd0)
  then show ?thesis
    unfolding R_def Max_rows_eq [OF P(1)] by (simp add: t_def)
qed


lemma pool_forward_value:
  assumes ne: "input \<noteq> []"
    and rows: "\<forall>ch \<in> set input. length ch = h"
    and cols: "\<forall>ch \<in> set input. \<forall>row \<in> set ch. length row = w"
    and ps: "PoolSize mpl = int P" "PoolStride mpl = int S"
    and P: "0 < P" "P \<le> h" "P \<le> w" and S: "0 < S"
  shows "pool_forward mpl input =
     Inr (map (\<lambda>c. map (\<lambda>y. map (\<lambda>x.
            Max ((\<lambda>(ky, kx). input ! c ! (y * S + ky) ! (x * S + kx)) ` ({..<P} \<times> {..<P})))
          [0..<(w - P) div S + 1]) [0..<(h - P) div S + 1]) [0..<length input])"
proof -
  let ?oh = "(h - P) div S + 1" and ?ow = "(w - P) div S + 1"
  let ?V = "\<lambda>c y x. Max ((\<lambda>(ky, kx). input ! c ! (y * S + ky) ! (x * S + kx)) ` ({..<P} \<times> {..<P}))"
  from ne have in0: "input ! 0 \<in> set input" by simp
  with rows have l0: "length (input ! 0) = h" by blast
  with P have "input ! 0 ! 0 \<in> set (input ! 0)" by simp
  with cols in0 have l00: "length (input ! 0 ! 0) = w" by blast
  have i0: "index input 0 = Inr (input ! 0)" using ne by (simp add: index_def)
  have i00: "index (input ! 0) 0 = Inr (input ! 0 ! 0)" using l0 P by (simp add: index_def)
  have alloc: "for_each (\<lambda>_. make2D (int ?oh) (int ?ow)) (map int [0..<length input])
      = Inr (map (\<lambda>_. replicate ?oh (replicate ?ow 0)) (map int [0..<length input]))"
    unfolding make2D_nat by (rule for_each_const)
  have cells: "for_each (\<lambda>c. for_each (\<lambda>y. for_each (\<lambda>x. pool_cell mpl input c y x)
        (map int [0..<?ow])) (map int [0..<?oh])) (map int [0..<length input])
      = Inr (map (\<lambda>c. map (\<lambda>y. map (\<lambda>x. ?V c y x) [0..<?ow]) [0..<?oh]) [0..<length input])"
  proof (intro for_each_upto)
    fix c y x
    assume c: "c < length input" and y: "y < ?oh" and x: "x < ?ow"
    from c have ch: "input ! c \<in> set input" by simp
    with rows have lc: "length (input ! c) = h" by blast
    from ch cols have cc: "\<forall>row \<in> set (input ! c). length row = w" by blast
    show "pool_cell mpl input (int c) (int y) (int x) = Inr (?V c y x)"
      by (rule pool_cell_value [OF c lc cc P ps y x])
  qed
  show ?thesis
    unfolding pool_forward_def Let_def ps
    by (simp only: i0 i00 l0 l00 and_then_Inr pool_out_size_nat [OF P(2) S]
        pool_out_size_nat [OF P(3) S] alloc upto_int_int cells)
qed





section \<open>Shape arithmetic\<close>

text \<open>
  On a negative numerator Go's division rounds toward zero, not down: a 3-wide window
  on a 2-wide input with stride 2 gets output size 1, where the closed form gives 0.
\<close>

lemma go_div_truncates:
  "conv_out_size 2 0 3 2 = Inr 1 \<and> pool_out_size 2 3 2 = Inr 1
   \<and> closed_form_size 2 0 3 2 = 0"
  by (simp add: conv_out_size_def pool_out_size_def go_div_def closed_form_size_def floor_eq_iff)

text \<open>
  Beyond the range of a 64-bit integer the arithmetic wraps: with a padding of \<open>2^62\<close> the
  product \<open>2 * padding\<close> is \<open>-2^63\<close>. The sizes below are those of slices, the padded size
  included, and stay within the range.
\<close>

lemma out_size64_wraps: "conv_out_size64 3 (2 ^ 62) 1 1 = Inr (3 - 2 ^ 63)"
  by (simp add: conv_out_size64_def wrap64_def go_div_def)

lemma wrap64_id: "- (2 ^ 63) \<le> x \<Longrightarrow> x < 2 ^ 63 \<Longrightarrow> wrap64 x = x"
  by (simp add: wrap64_def)

lemma wrap64_overflow: "wrap64 (2 * 2 ^ 62) = - (2 ^ 63)"
  by (simp add: wrap64_def)

lemma closed_form_div: "closed_form_size i p k s = (i + 2 * p - k) div s + 1"
  unfolding closed_form_size_def by (simp only: floor_divide_of_int_eq)

lemma closed_form_fits:
  assumes "1 \<le> s" "1 \<le> closed_form_size i p k s"
  shows "k \<le> i + 2 * p"
proof -
  from assms(2) have "0 \<le> (i + 2 * p - k) div s" unfolding closed_form_div by simp
  with assms(1) have "0 \<le> i + 2 * p - k" by (simp add: pos_imp_zdiv_nonneg_iff)
  then show ?thesis by simp
qed

lemma out_size_in_range:
  assumes "0 \<le> i" "0 \<le> k" "0 \<le> p" "1 \<le> s" "i + 2 * p + 1 < 2 ^ 63"
    and "1 \<le> closed_form_size i p k s"
  shows "conv_out_size64 i p k s = Inr (closed_form_size i p k s)"
    and "conv_out_size i p k s = Inr (closed_form_size i p k s)"
proof -
  define n where "n = i + 2 * p - k"
  have fit: "k \<le> i + 2 * p" by (rule closed_form_fits [OF assms(4,6)])
  then have n0: "0 \<le> n" by (simp add: n_def)
  have w1: "wrap64 (2 * p) = 2 * p" using assms(1,3,5) by (intro wrap64_id) simp_all
  have w2: "wrap64 (i + 2 * p) = i + 2 * p" using assms(1,3,5) by (intro wrap64_id) simp_all
  have w3: "wrap64 (i + 2 * p - k) = n" using assms(2,5) n0 unfolding n_def
    by (intro wrap64_id) simp_all
  have q0: "0 \<le> n div s" using n0 assms(4) by (simp add: pos_imp_zdiv_nonneg_iff)
  have "n div s \<le> n div 1" using n0 assms(4) by (intro zdiv_mono2) simp_all
  then have "n div s \<le> n" by simp
  then have q1: "n div s + 1 < 2 ^ 63" using assms(2,5) by (simp add: n_def)
  have w4: "wrap64 (n div s) = n div s" using q0 q1 by (intro wrap64_id) simp_all
  have w5: "wrap64 (n div s + 1) = n div s + 1" using q0 q1 by (intro wrap64_id) simp_all
  have g: "go_div n s = Inr (n div s)" using n0 assms(4) by (intro go_div_nonneg) simp_all
  have c: "closed_form_size i p k s = n div s + 1" unfolding closed_form_div n_def ..
  show "conv_out_size64 i p k s = Inr (closed_form_size i p k s)"
    unfolding conv_out_size64_def w1 w2 w3 g c by (simp only: and_then_Inr w4 w5)
  show "conv_out_size i p k s = Inr (closed_form_size i p k s)"
    unfolding conv_out_size_def c using g by (simp add: n_def)
qed

lemma pool_size_in_range:
  assumes "0 \<le> i" "0 \<le> k" "1 \<le> s" "i + 1 < 2 ^ 63"
    and "1 \<le> closed_form_size i 0 k s"
  shows "pool_out_size64 i k s = Inr (closed_form_size i 0 k s)"
    and "pool_out_size i k s = Inr (closed_form_size i 0 k s)"
proof -
  have a: "conv_out_size64 i 0 k s = Inr (closed_form_size i 0 k s)"
    and b: "conv_out_size i 0 k s = Inr (closed_form_size i 0 k s)"
    using out_size_in_range [of i k 0 s] assms by simp_all
  have w: "wrap64 i = i" using assms(1,4) by (intro wrap64_id) simp_all
  have "pool_out_size64 i k s = conv_out_size64 i 0 k s"
    by (simp add: pool_out_size64_def conv_out_size64_def wrap64_id w)
  with a show "pool_out_size64 i k s = Inr (closed_form_size i 0 k s)" by simp
  have "pool_out_size i k s = conv_out_size i 0 k s"
    by (simp add: pool_out_size_def conv_out_size_def)
  with b show "pool_out_size i k s = Inr (closed_form_size i 0 k s)" by simp
qed


lemma closed_form_nat:
  assumes "K \<le> H" 
  shows "closed_form_size (int H) 0 (int K) (int S) = int ((H - K) div S + 1)"
proof -
  have "int H + 2 * 0 - int K = int (H - K)" using assms by simp
  moreover have "int (H - K) div int S = int ((H - K) div S)" by (rule zdiv_int [symmetric])
  ultimately show ?thesis unfolding closed_form_div by (simp only: of_nat_add of_nat_1)
qed

lemma closed_form_pad_nat:
  assumes "K \<le> h + 2 * p"
  shows "closed_form_size (int h) (int p) (int K) (int S) = int ((h + 2 * p - K) div S + 1)"
proof -
  have "int h + 2 * int p - int K = int (h + 2 * p - K)" using assms by simp
  moreover have "int (h + 2 * p - K) div int S = int ((h + 2 * p - K) div S)"
    by (rule zdiv_int [symmetric])
  ultimately show ?thesis unfolding closed_form_div by (simp only: of_nat_add of_nat_1)
qed

lemma closed_form_fits_nat:
  assumes "0 < S" "1 \<le> closed_form_size (int h) (int p) (int K) (int S)"
  shows "K \<le> h + 2 * p"
proof -
  have "int K \<le> int h + 2 * int p" using assms by (intro closed_form_fits [of "int S"]) simp_all
  then show ?thesis by linarith
qed

text \<open>
  Claim C2. Take sizes within the 64-bit range (a non-negative input size, kernel or pool
  size and padding, with \<open>inputSize + 2 * padding + 1 < 2^63\<close>), a stride of at least 1, and
  let the closed form \<open>\<lfloor>(inputSize + 2 * padding - kernelSize) / stride\<rfloor> + 1\<close> be at least 1.
  Then the expression of the convolution layer, and that of the pooling layer with
  padding 0, computed in 64 bits, is the closed form. The layers use it: on well-formed
  data the output of \<^verbatim>\<open>ConvLayer.Forward\<close> has the closed form of the input height as its
  height and the closed form of the input width as its width, and so has the output of
  \<^verbatim>\<open>MaxPoolLayer.Forward\<close> with padding 0. For \<open>inputSize = kernelSize\<close>, stride 1 and
  padding 0 the size is 1.
\<close>

theorem out_size_floor_formula:
  "(0 \<le> inputSize \<and> 0 \<le> kernelSize \<and> 0 \<le> padding \<and> 1 \<le> stride
      \<and> inputSize + 2 * padding + 1 < 2 ^ 63
      \<and> 1 \<le> closed_form_size inputSize padding kernelSize stride
    \<longrightarrow> conv_out_size64 inputSize padding kernelSize stride
          = Inr (closed_form_size inputSize padding kernelSize stride)
        \<and> conv_out_size inputSize padding kernelSize stride
          = Inr (closed_form_size inputSize padding kernelSize stride))
   \<and> (0 \<le> inputSize \<and> 0 \<le> kernelSize \<and> 1 \<le> stride \<and> inputSize + 1 < 2 ^ 63
      \<and> 1 \<le> closed_form_size inputSize 0 kernelSize stride
    \<longrightarrow> pool_out_size64 inputSize kernelSize stride
          = Inr (closed_form_size inputSize 0 kernelSize stride)
        \<and> pool_out_size inputSize kernelSize stride
          = Inr (closed_form_size inputSize 0 kernelSize stride))
   \<and> (Filters cl \<noteq> [] \<and> (\<forall>flt \<in> set (Filters cl). length flt = length input)
      \<and> (\<forall>flt \<in> set (Filters cl). \<forall>k \<in> set flt. length k = KH)
      \<and> (\<forall>flt \<in> set (Filters cl). \<forall>k \<in> set flt. \<forall>row \<in> set k. length row = KW)
      \<and> length (Biases cl) = length (Filters cl)
      \<and> input \<noteq> [] \<and> (\<forall>ch \<in> set input. length ch = h)
      \<and> (\<forall>ch \<in> set input. \<forall>row \<in> set ch. length row = w) \<and> 0 < h \<and> 0 < KH
      \<and> Stride cl = int S \<and> 0 < S \<and> Padding cl = int p
      \<and> int h + 2 * int p + 1 < 2 ^ 63 \<and> int w + 2 * int p + 1 < 2 ^ 63
      \<and> 1 \<le> closed_form_size (int h) (int p) (int KH) (int S)
      \<and> 1 \<le> closed_form_size (int w) (int p) (int KW) (int S)
    \<longrightarrow> (\<exists>out. conv_forward cl input = Inr out \<and> length out = length (Filters cl)
          \<and> (\<forall>f < length (Filters cl).
                int (length (out ! f)) = closed_form_size (int h) (int p) (int KH) (int S)
                \<and> (\<forall>y < length (out ! f).
                      int (length (out ! f ! y))
                        = closed_form_size (int w) (int p) (int KW) (int S)))))
   \<and> (pin \<noteq> [] \<and> (\<forall>ch \<in> set pin. length ch = ph)
      \<and> (\<forall>ch \<in> set pin. \<forall>row \<in> set ch. length row = pw)
      \<and> PoolSize mpl = int P \<and> 0 < P \<and> PoolStride mpl = int PS \<and> 0 < PS
      \<and> int ph + 1 < 2 ^ 63 \<and> int pw + 1 < 2 ^ 63
      \<and> 1 \<le> closed_form_size (int ph) 0 (int P) (int PS)
      \<and> 1 \<le> closed_form_size (int pw) 0 (int P) (int PS)
    \<longrightarrow> (\<exists>out. pool_forward mpl pin = Inr out \<and> length out = length pin
          \<and> (\<forall>c < length pin.
                int (length (out ! c)) = closed_form_size (int ph) 0 (int P) (int PS)
                \<and> (\<forall>y < length (out ! c).
                      int (length (out ! c ! y)) = closed_form_size (int pw) 0 (int P) (int PS)))))
   \<and> (0 \<le> kernelSize \<and> kernelSize + 1 < 2 ^ 63
    \<longrightarrow> conv_out_size64 kernelSize 0 kernelSize 1 = Inr 1
        \<and> pool_out_size64 kernelSize kernelSize 1 = Inr 1
        \<and> closed_form_size kernelSize 0 kernelSize 1 = 1)"
proof (intro conjI impI)
  assume a: "0 \<le> inputSize \<and> 0 \<le> kernelSize \<and> 0 \<le> padding \<and> 1 \<le> stride
      \<and> inputSize + 2 * padding + 1 < 2 ^ 63
      \<and> 1 \<le> closed_form_size inputSize padding kernelSize stride"
  then show "conv_out_size64 inputSize padding kernelSize stride
          = Inr (closed_form_size inputSize padding kernelSize stride)"
    by (intro out_size_in_range(1)) simp_all
  from a show "conv_out_size inputSize padding kernelSize stride
          = Inr (closed_form_size inputSize padding kernelSize stride)"
    by (intro out_size_in_range(2)) simp_all
next
  assume a: "0 \<le> inputSize \<and> 0 \<le> kernelSize \<and> 1 \<le> stride \<and> inputSize + 1 < 2 ^ 63
      \<and> 1 \<le> closed_form_size inputSize 0 kernelSize stride"
  then show "pool_out_size64 inputSize kernelSize stride
          = Inr (closed_form_size inputSize 0 kernelSize stride)"
    by (intro pool_size_in_range(1)) simp_all
  from a show "pool_out_size inputSize kernelSize stride
          = Inr (closed_form_size inputSize 0 kernelSize stride)"
    by (intro pool_size_in_range(2)) simp_all
next
  assume a: "Filters cl \<noteq> [] \<and> (\<forall>flt \<in> set (Filters cl). length flt = length input)
      \<and> (\<forall>flt \<in> set (Filters cl). \<forall>k \<in> set flt. length k = KH)
      \<and> (\<forall>flt \<in> set (Filters cl). \<forall>k \<in> set flt. \<forall>row \<in> set k. length row = KW)
      \<and> length (Biases cl) = length (Filters cl)
      \<and> input \<noteq> [] \<and> (\<forall>ch \<in> set input. length ch = h)
      \<and> (\<forall>ch \<in> set input. \<forall>row \<in> set ch. length row = w) \<and> 0 < h \<and> 0 < KH
      \<and> Stride cl = int S \<and> 0 < S \<and> Padding cl = int p
      \<and> int h + 2 * int p + 1 < 2 ^ 63 \<and> int w + 2 * int p + 1 < 2 ^ 63
      \<and> 1 \<le> closed_form_size (int h) (int p) (int KH) (int S)
      \<and> 1 \<le> closed_form_size (int w) (int p) (int KW) (int S)"
  then have flt: "Filters cl \<noteq> []" "\<forall>flt \<in> set (Filters cl). length flt = length input"
      "\<forall>flt \<in> set (Filters cl). \<forall>k \<in> set flt. length k = KH"
      "\<forall>flt \<in> set (Filters cl). \<forall>k \<in> set flt. \<forall>row \<in> set k. length row = KW"
    and bias: "length (Biases cl) = length (Filters cl)"
    and inp: "input \<noteq> []" "\<forall>ch \<in> set input. length ch = h"
      "\<forall>ch \<in> set input. \<forall>row \<in> set ch. length row = w" "0 < h"
    and cfg: "Stride cl = int S" "0 < S" "Padding cl = int p"
    and kh: "0 < KH"
    and cf: "1 \<le> closed_form_size (int h) (int p) (int KH) (int S)"
      "1 \<le> closed_form_size (int w) (int p) (int KW) (int S)"
    by simp_all
  have fit: "KH \<le> h + 2 * p" "KW \<le> w + 2 * p"
    using closed_form_fits_nat [OF cfg(2) cf(1)] closed_form_fits_nat [OF cfg(2) cf(2)]
    by simp_all
  from inp(1) have c0: "0 < length input" by simp
  from conv_forward_value [OF flt(1,2) c0 flt(3,4) inp cfg kh fit bias order_refl]
  obtain padded where cfv: "conv_forward cl input =
         Inr (map (\<lambda>f. map (\<lambda>y. map (\<lambda>x.
                relu ((\<Sum>c<length input. \<Sum>ky<KH. \<Sum>kx<KW.
                        padded ! c ! (y * S + ky) ! (x * S + kx) * Filters cl ! f ! c ! ky ! kx)
                      + Biases cl ! f))
              [0..<(w + 2 * p - KW) div S + 1]) [0..<(h + 2 * p - KH) div S + 1])
              [0..<length (Filters cl)])"
    by blast
  let ?V = "\<lambda>f y x. relu ((\<Sum>c<length input. \<Sum>ky<KH. \<Sum>kx<KW.
       padded ! c ! (y * S + ky) ! (x * S + kx) * Filters cl ! f ! c ! ky ! kx) + Biases cl ! f)"
  define out where "out = map (\<lambda>f. map (\<lambda>y. map (\<lambda>x. ?V f y x)
      [0..<(w + 2 * p - KW) div S + 1]) [0..<(h + 2 * p - KH) div S + 1]) [0..<length (Filters cl)]"
  have 1: "conv_forward cl input = Inr out" unfolding out_def by (rule cfv)
  have 2: "length out = length (Filters cl)" unfolding out_def by (rule map3_shape(1))
  have 3: "length (out ! f) = (h + 2 * p - KH) div S + 1" if "f < length (Filters cl)" for f
    unfolding out_def using that by (rule map3_shape(2))
  have 4: "length (out ! f ! y) = (w + 2 * p - KW) div S + 1"
    if "f < length (Filters cl)" "y < (h + 2 * p - KH) div S + 1" for f y
    unfolding out_def using that by (rule map3_shape(3))
  have 5: "int (length (out ! f)) = closed_form_size (int h) (int p) (int KH) (int S)"
    if "f < length (Filters cl)" for f
    unfolding 3 [OF that] closed_form_pad_nat [OF fit(1)] ..
  have 6: "int (length (out ! f ! y)) = closed_form_size (int w) (int p) (int KW) (int S)"
    if "f < length (Filters cl)" "y < length (out ! f)" for f y
  proof -
    from that have "y < (h + 2 * p - KH) div S + 1" by (simp only: 3)
    from 4 [OF that(1) this] show ?thesis unfolding closed_form_pad_nat [OF fit(2)] by simp
  qed
  show "\<exists>out. conv_forward cl input = Inr out \<and> length out = length (Filters cl)
          \<and> (\<forall>f < length (Filters cl).
                int (length (out ! f)) = closed_form_size (int h) (int p) (int KH) (int S)
                \<and> (\<forall>y < length (out ! f).
                      int (length (out ! f ! y))
                        = closed_form_size (int w) (int p) (int KW) (int S)))"
    by (rule exI [of _ out], intro conjI allI impI) (simp_all only: 1 2 5 6)
next
  assume a: "pin \<noteq> [] \<and> (\<forall>ch \<in> set pin. length ch = ph)
      \<and> (\<forall>ch \<in> set pin. \<forall>row \<in> set ch. length row = pw)
      \<and> PoolSize mpl = int P \<and> 0 < P \<and> PoolStride mpl = int PS \<and> 0 < PS
      \<and> int ph + 1 < 2 ^ 63 \<and> int pw + 1 < 2 ^ 63
      \<and> 1 \<le> closed_form_size (int ph) 0 (int P) (int PS)
      \<and> 1 \<le> closed_form_size (int pw) 0 (int P) (int PS)"
  then have inp: "pin \<noteq> []" "\<forall>ch \<in> set pin. length ch = ph"
      "\<forall>ch \<in> set pin. \<forall>row \<in> set ch. length row = pw"
    and ps: "PoolSize mpl = int P" "PoolStride mpl = int PS" and P: "0 < P" and S: "0 < PS"
    and cf: "1 \<le> closed_form_size (int ph) (int 0) (int P) (int PS)"
      "1 \<le> closed_form_size (int pw) (int 0) (int P) (int PS)"
    by simp_all
  have fit: "P \<le> ph" "P \<le> pw"
    using closed_form_fits_nat [OF S cf(1)] closed_form_fits_nat [OF S cf(2)] by simp_all
  let ?V = "\<lambda>c y x. Max ((\<lambda>(ky, kx). pin ! c ! (y * PS + ky) ! (x * PS + kx)) ` ({..<P} \<times> {..<P}))"
  define out where "out = map (\<lambda>c. map (\<lambda>y. map (\<lambda>x. ?V c y x)
          [0..<(pw - P) div PS + 1]) [0..<(ph - P) div PS + 1]) [0..<length pin]"
  have 1: "pool_forward mpl pin = Inr out"
    unfolding out_def by (rule pool_forward_value [OF inp ps P fit S])
  have 2: "length out = length pin" unfolding out_def by (rule map3_shape(1))
  have 3: "length (out ! c) = (ph - P) div PS + 1" if "c < length pin" for c
    unfolding out_def using that by (rule map3_shape(2))
  have 4: "length (out ! c ! y) = (pw - P) div PS + 1"
    if "c < length pin" "y < (ph - P) div PS + 1" for c y
    unfolding out_def using that by (rule map3_shape(3))
  have 5: "int (length (out ! c)) = closed_form_size (int ph) 0 (int P) (int PS)"
    if "c < length pin" for c
    unfolding 3 [OF that] closed_form_nat [OF fit(1)] ..
  have 6: "int (length (out ! c ! y)) = closed_form_size (int pw) 0 (int P) (int PS)"
    if "c < length pin" "y < length (out ! c)" for c y
  proof -
    from that have "y < (ph - P) div PS + 1" by (simp only: 3)
    from 4 [OF that(1) this] show ?thesis unfolding closed_form_nat [OF fit(2)] by simp
  qed
  show "\<exists>out. pool_forward mpl pin = Inr out \<and> length out = length pin
          \<and> (\<forall>c < length pin.
                int (length (out ! c)) = closed_form_size (int ph) 0 (int P) (int PS)
                \<and> (\<forall>y < length (out ! c).
                      int (length (out ! c ! y)) = closed_form_size (int pw) 0 (int P) (int PS)))"
    by (rule exI [of _ out], intro conjI allI impI) (simp_all only: 1 2 5 6)
next
  assume a: "0 \<le> kernelSize \<and> kernelSize + 1 < 2 ^ 63"
  have c: "closed_form_size kernelSize 0 kernelSize 1 = 1" by (simp add: closed_form_div)
  from c show "closed_form_size kernelSize 0 kernelSize 1 = 1" .
  from a c have "conv_out_size64 kernelSize 0 kernelSize 1
      = Inr (closed_form_size kernelSize 0 kernelSize 1)"
    by (intro out_size_in_range(1)) simp_all
  with c show "conv_out_size64 kernelSize 0 kernelSize 1 = Inr 1" by simp
  from a c have "pool_out_size64 kernelSize kernelSize 1
      = Inr (closed_form_size kernelSize 0 kernelSize 1)"
    by (intro pool_size_in_range(1)) simp_all
  with c show "pool_out_size64 kernelSize kernelSize 1 = Inr 1" by simp
qed


theorem out_size_floor_formula_witness:
  "(1::int) \<le> 2 \<and> (7::int) + 2 * 1 + 1 < 2 ^ 63 \<and> 1 \<le> closed_form_size 7 1 4 2
   \<and> closed_form_size 7 1 4 2 = 3
   \<and> conv_out_size64 7 1 4 2 = Inr 3 \<and> conv_out_size 7 1 4 2 = Inr 3
   \<and> pool_out_size64 7 2 2 = Inr 3 \<and> pool_out_size 7 2 2 = Inr 3
   \<and> (\<exists>out. conv_forward \<lparr>Filters = [[[[2]], [[3]]]], Biases = [-1], Stride = 1, Padding = 1\<rparr>
          [[[1, 2], [3, 4]], [[2, 0], [1, 1]]] = Inr out
        \<and> length out = 1 \<and> length (out ! 0) = 4 \<and> length (out ! 0 ! 0) = 4)
   \<and> (\<exists>out. pool_forward \<lparr>PoolSize = 2, PoolStride = 2\<rparr>
          [[[1, 2, 3, 4], [5, 6, 7, 8], [9, 10, 11, 12], [13, 14, 15, 16]]] = Inr out
        \<and> length out = 1 \<and> length (out ! 0) = 2 \<and> length (out ! 0 ! 1) = 2)
   \<and> conv_out_size64 5 0 5 1 = Inr 1 \<and> pool_out_size64 5 5 1 = Inr 1"
proof -
  let ?cl = "\<lparr>Filters = [[[[2]], [[3]]]], Biases = [-1::real], Stride = 1, Padding = 1\<rparr>"
  let ?t = "[[[1, 2], [3, 4]], [[2, 0], [1, 1::real]]]"
  let ?mpl = "\<lparr>PoolSize = 2, PoolStride = 2\<rparr>"
  let ?u = "[[[1, 2, 3, 4], [5, 6, 7, 8], [9, 10, 11, 12], [13, 14, 15, 16::real]]]"
  have c1: "closed_form_size 7 1 4 2 = 3" by (simp add: closed_form_div)
  have c2: "closed_form_size 7 0 2 2 = 3" by (simp add: closed_form_div)
  have c3: "closed_form_size (int 2) (int 1) (int 1) (int 1) = 4" by (simp add: closed_form_div)
  have c4: "closed_form_size (int 4) 0 (int 2) (int 2) = 2" by (simp add: closed_form_div)
  have c3': "closed_form_size 2 1 1 1 = 4" by (simp add: closed_form_div)
  have c4': "closed_form_size 4 0 2 2 = 2" by (simp add: closed_form_div)
  note T = out_size_floor_formula
  have g: "conv_out_size64 7 1 4 2 = Inr (closed_form_size 7 1 4 2)
      \<and> conv_out_size 7 1 4 2 = Inr (closed_form_size 7 1 4 2)"
    by (rule T [THEN conjunct1, rule_format]) (simp add: c1)
  have p: "pool_out_size64 7 2 2 = Inr (closed_form_size 7 0 2 2)
      \<and> pool_out_size 7 2 2 = Inr (closed_form_size 7 0 2 2)"
    by (rule T [THEN conjunct2, THEN conjunct1, rule_format]) (simp add: c2)
  have "\<exists>out. conv_forward ?cl ?t = Inr out \<and> length out = length (Filters ?cl)
          \<and> (\<forall>f < length (Filters ?cl).
                int (length (out ! f)) = closed_form_size (int 2) (int 1) (int 1) (int 1)
                \<and> (\<forall>y < length (out ! f).
                      int (length (out ! f ! y))
                        = closed_form_size (int 2) (int 1) (int 1) (int 1)))"
    by (rule T [THEN conjunct2, THEN conjunct2, THEN conjunct1, rule_format])
       (auto simp: c3')
  then obtain out where o: "conv_forward ?cl ?t = Inr out" "length out = length (Filters ?cl)"
    and d: "\<forall>f < length (Filters ?cl). int (length (out ! f)) = 4
                \<and> (\<forall>y < length (out ! f). int (length (out ! f ! y)) = 4)"
    unfolding c3 by blast
  from d [rule_format, of 0] have d0: "length (out ! 0) = 4"
    and d1: "\<forall>y < length (out ! 0). int (length (out ! 0 ! y)) = 4" by simp_all
  from d1 [rule_format, of 0] d0 have d2: "length (out ! 0 ! 0) = 4" by simp
  from o d0 d2 have L: "\<exists>out. conv_forward ?cl ?t = Inr out
        \<and> length out = 1 \<and> length (out ! 0) = 4 \<and> length (out ! 0 ! 0) = 4" by simp
  have "\<exists>out. pool_forward ?mpl ?u = Inr out \<and> length out = length ?u
          \<and> (\<forall>c < length ?u.
                int (length (out ! c)) = closed_form_size (int 4) 0 (int 2) (int 2)
                \<and> (\<forall>y < length (out ! c).
                      int (length (out ! c ! y)) = closed_form_size (int 4) 0 (int 2) (int 2)))"
    by (rule T [THEN conjunct2, THEN conjunct2, THEN conjunct2, THEN conjunct1, rule_format])
       (auto simp: c4')
  then obtain pout where po: "pool_forward ?mpl ?u = Inr pout" "length pout = length ?u"
    and e: "\<forall>c < length ?u. int (length (pout ! c)) = 2
                \<and> (\<forall>y < length (pout ! c). int (length (pout ! c ! y)) = 2)"
    unfolding c4 by blast
  from e [rule_format, of 0] have e0: "length (pout ! 0) = 2"
    and e1: "\<forall>y < length (pout ! 0). int (length (pout ! 0 ! y)) = 2" by simp_all
  from e1 [rule_format, of 1] e0 have e2: "length (pout ! 0 ! 1) = 2" by simp
  from po e0 e2 have M: "\<exists>out. pool_forward ?mpl ?u = Inr out
        \<and> length out = 1 \<and> length (out ! 0) = 2 \<and> length (out ! 0 ! 1) = 2" by simp
  have b: "conv_out_size64 5 0 5 1 = Inr 1 \<and> pool_out_size64 5 5 1 = Inr 1
      \<and> closed_form_size 5 0 5 1 = 1"
    by (rule T [THEN conjunct2, THEN conjunct2, THEN conjunct2, THEN conjunct2, rule_format])
       simp
  from g p L M b c1 c2 show ?thesis by simp
qed


section \<open>Flatten layer\<close>

lemma loop_flatten_store:
  "i + length row \<le> length out \<Longrightarrow>
   loop flatten_store row (out, i)
     = Inr (take i out @ row @ drop (i + length row) out, i + length row)"
proof (induction row arbitrary: out i)
  case Nil
  show ?case by simp
next
  case (Cons v row)
  then have i: "i < length out" and fit: "Suc i + length row \<le> length (out[i := v])"
    by simp_all
  have st: "flatten_store (out, i) v = Inr (out[i := v], Suc i)"
    using i by (simp add: flatten_store_def)
  have t: "take (Suc i) (out[i := v]) = take i out @ [v]"
    using i by (simp add: take_Suc_conv_app_nth)
  have d: "drop (Suc i + length row) (out[i := v]) = drop (Suc i + length row) out"
    by simp
  show ?case
    using Cons.IH [OF fit] by (simp add: st t d)
qed

lemma loop_flatten_rows:
  "i + length (concat ch) \<le> length out \<Longrightarrow>
   loop (\<lambda>s row. loop flatten_store row s) ch (out, i)
     = Inr (take i out @ concat ch @ drop (i + length (concat ch)) out, i + length (concat ch))"
proof (induction ch arbitrary: out i)
  case Nil
  show ?case by simp
next
  case (Cons row ch)
  let ?out = "take i out @ row @ drop (i + length row) out"
  from Cons.prems have fit: "i + length row \<le> length out" by simp
  from Cons.prems have fit': "(i + length row) + length (concat ch) \<le> length ?out" by simp
  have t: "take (i + length row) ?out = take i out @ row" using fit by simp
  have d: "drop (i + length row + length (concat ch)) ?out
      = drop (i + (length row + length (concat ch))) out"
    using fit by (simp add: ac_simps)
  have "loop (\<lambda>s row. loop flatten_store row s) (row # ch) (out, i)
      = loop (\<lambda>s row. loop flatten_store row s) ch (?out, i + length row)"
    by (simp add: loop_flatten_store [OF fit])
  also have "\<dots> = Inr (take (i + length row) ?out @ concat ch
        @ drop (i + length row + length (concat ch)) ?out, i + length row + length (concat ch))"
    by (rule Cons.IH [OF fit'])
  also have "\<dots> = Inr (take i out @ concat (row # ch)
        @ drop (i + length (concat (row # ch))) out, i + length (concat (row # ch)))"
    unfolding t d by (simp add: add.assoc)
  finally show ?case .
qed

lemma loop_flatten_channels:
  "i + length (concat (map concat t)) \<le> length out \<Longrightarrow>
   loop (\<lambda>s ch. loop (\<lambda>s row. loop flatten_store row s) ch s) t (out, i)
     = Inr (take i out @ concat (map concat t) @ drop (i + length (concat (map concat t))) out,
            i + length (concat (map concat t)))"
proof (induction t arbitrary: out i)
  case Nil
  show ?case by simp
next
  case (Cons ch t)
  let ?n = "length (concat ch)"
  let ?out = "take i out @ concat ch @ drop (i + ?n) out"
  from Cons.prems have fit: "i + ?n \<le> length out" by simp
  from Cons.prems have fit': "(i + ?n) + length (concat (map concat t)) \<le> length ?out" by simp
  have t: "take (i + ?n) ?out = take i out @ concat ch" using fit by simp
  have d: "drop (i + ?n + length (concat (map concat t))) ?out
      = drop (i + (?n + length (concat (map concat t)))) out"
    using fit by (simp add: ac_simps)
  have "loop (\<lambda>s ch. loop (\<lambda>s row. loop flatten_store row s) ch s) (ch # t) (out, i)
      = loop (\<lambda>s ch. loop (\<lambda>s row. loop flatten_store row s) ch s) t (?out, i + ?n)"
    by (simp add: loop_flatten_rows [OF fit])
  also have "\<dots> = Inr (take (i + ?n) ?out @ concat (map concat t)
        @ drop (i + ?n + length (concat (map concat t))) ?out,
        i + ?n + length (concat (map concat t)))"
    by (rule Cons.IH [OF fit'])
  also have "\<dots> = Inr (take i out @ concat (map concat (ch # t))
        @ drop (i + length (concat (map concat (ch # t)))) out,
        i + length (concat (map concat (ch # t))))"
    unfolding t d by (simp add: add.assoc)
  finally show ?case .
qed

lemma length_concat_rect: "\<forall>xs \<in> set xss. length xs = n \<Longrightarrow> length (concat xss) = length xss * n"
  by (induction xss) simp_all

lemma nth_concat_rect:
  "\<forall>xs \<in> set xss. length xs = n \<Longrightarrow> i < length xss \<Longrightarrow> j < n \<Longrightarrow>
   concat xss ! (i * n + j) = xss ! i ! j"
proof (induction xss arbitrary: i)
  case Nil
  then show ?case by simp
next
  case (Cons xs xss)
  show ?case
  proof (cases i)
    case 0
    with Cons.prems show ?thesis by (simp add: nth_append)
  next
    case (Suc k)
    with Cons.prems have "concat xss ! (k * n + j) = xss ! k ! j"
      by (intro Cons.IH) simp_all
    with Suc Cons.prems show ?thesis by (simp add: nth_append)
  qed
qed


lemma flatten_forward_concat:
  assumes ne: "input \<noteq> []" and h: "0 < h"
    and rows: "\<forall>ch \<in> set input. length ch = h"
    and cols: "\<forall>ch \<in> set input. \<forall>row \<in> set ch. length row = w"
  shows "flatten_forward input = Inr (concat (map concat input))"
    and "length (concat (map concat input)) = length input * h * w"
proof -
  from ne have in0: "input ! 0 \<in> set input" by simp
  with rows have l0: "length (input ! 0) = h" by blast
  with h have "input ! 0 ! 0 \<in> set (input ! 0)" by simp
  with cols in0 have l00: "length (input ! 0 ! 0) = w" by blast
  have i0: "index input 0 = Inr (input ! 0)" using ne by (simp add: index_def)
  have i00: "index (input ! 0) 0 = Inr (input ! 0 ! 0)" using l0 h by (simp add: index_def)
  have "\<forall>xs \<in> set (map concat input). length xs = h * w"
    using rows cols by (auto simp: length_concat_rect)
  from length_concat_rect [OF this]
  show len: "length (concat (map concat input)) = length input * h * w" by simp
  let ?size = "length input * h * w"
  have "loop (\<lambda>s ch. loop (\<lambda>s row. loop flatten_store row s) ch s) input
          (replicate ?size 0, 0)
        = Inr (take 0 (replicate ?size 0) @ concat (map concat input)
               @ drop (0 + length (concat (map concat input))) (replicate ?size 0),
               0 + length (concat (map concat input)))"
    by (rule loop_flatten_channels) (simp add: len)
  then have "loop (\<lambda>s ch. loop (\<lambda>s row. loop flatten_store row s) ch s) input
          (replicate ?size 0, 0) = Inr (concat (map concat input), ?size)"
    by (simp add: len)
  then show "flatten_forward input = Inr (concat (map concat input))"
    unfolding flatten_forward_def Let_def
    by (simp add: i0 i00 l0 l00 del: of_nat_mult)
qed

lemma nth_flat_rect:
  assumes rows: "\<forall>ch \<in> set input. length ch = h"
    and cols: "\<forall>ch \<in> set input. \<forall>row \<in> set ch. length row = w"
    and "c < length input" "y < h" "x < w"
  shows "concat (map concat input) ! (c * h * w + y * w + x) = input ! c ! y ! x"
proof -
  have ch: "input ! c \<in> set input" using assms(3) by simp
  have hw: "\<forall>xs \<in> set (map concat input). length xs = h * w"
    using rows cols by (auto simp: length_concat_rect)
  have "y * w + x < Suc y * w" using assms(5) by simp
  also have "Suc y * w \<le> h * w" using assms(4) by (intro mult_le_mono1) simp
  finally have lt: "y * w + x < h * w" .
  have "concat (map concat input) ! (c * (h * w) + (y * w + x)) = map concat input ! c ! (y * w + x)"
    by (rule nth_concat_rect [OF hw _ lt]) (simp add: assms(3))
  also have "\<dots> = concat (input ! c) ! (y * w + x)" using assms(3) by simp
  also have "\<dots> = input ! c ! y ! x"
    using cols ch rows assms(4,5) by (intro nth_concat_rect) auto
  finally show ?thesis by (simp add: mult.assoc add.assoc)
qed

text \<open>
  The size is computed from \<^verbatim>\<open>input[0]\<close> and \<^verbatim>\<open>input[0][0]\<close>: a tensor without
  channels, or whose first channel has no rows, panics. A tensor of \<open>c\<close> channels,
  height \<open>h\<close> and width \<open>w\<close> below has \<open>c \<ge> 1\<close> and \<open>h \<ge> 1\<close>.
\<close>

lemma flatten_forward_no_channels:
  "flatten_forward [] = Inl IndexOutOfRange \<and> flatten_forward ([] # t) = Inl IndexOutOfRange"
  by (simp add: flatten_forward_def index_def)

text \<open>
  Claim C7. For a tensor of \<open>c\<close> channels of \<open>h\<close> rows of length \<open>w\<close>, the flatten layer
  returns a vector of length \<open>c * h * w\<close> whose element at index \<open>ch * h * w + y * w + x\<close>
  is \<open>input[ch][y][x]\<close>, and un-flattening it with \<open>(c, h, w)\<close> gives the tensor back.
\<close>

theorem flatten_forward_spec:
  assumes "input \<noteq> []" and "0 < h"
    and "\<forall>ch \<in> set input. length ch = h"
    and "\<forall>ch \<in> set input. \<forall>row \<in> set ch. length row = w"
  shows "\<exists>out. flatten_forward input = Inr out
     \<and> length out = length input * h * w
     \<and> (\<forall>c < length input. \<forall>y < h. \<forall>x < w.
           out ! (c * h * w + y * w + x) = input ! c ! y ! x)
     \<and> unflatten (length input) h w out = input"
proof -
  let ?out = "concat (map concat input)"
  have nth: "?out ! (c * h * w + y * w + x) = input ! c ! y ! x"
    if "c < length input" "y < h" "x < w" for c y x
    using nth_flat_rect [OF assms(3,4) that] .
  have "unflatten (length input) h w ?out = input"
  proof (rule nth_equalityI)
    show "length (unflatten (length input) h w ?out) = length input"
      by (simp add: unflatten_def)
  next
    fix c
    assume "c < length (unflatten (length input) h w ?out)"
    then have c: "c < length input" by (simp add: unflatten_def)
    then have lc: "length (input ! c) = h" using assms(3) by simp
    show "unflatten (length input) h w ?out ! c = input ! c"
    proof (rule nth_equalityI)
      show "length (unflatten (length input) h w ?out ! c) = length (input ! c)"
        using c lc by (simp add: unflatten_def)
    next
      fix y
      assume "y < length (unflatten (length input) h w ?out ! c)"
      then have y: "y < h" using c by (simp add: unflatten_def)
      have "input ! c ! y \<in> set (input ! c)" using y lc by simp
      moreover have "input ! c \<in> set input" using c by simp
      ultimately have ly: "length (input ! c ! y) = w" using assms(4) by blast
      show "unflatten (length input) h w ?out ! c ! y = input ! c ! y"
      proof (rule nth_equalityI)
        show "length (unflatten (length input) h w ?out ! c ! y) = length (input ! c ! y)"
          using c y ly by (simp add: unflatten_def)
      next
        fix x
        assume "x < length (unflatten (length input) h w ?out ! c ! y)"
        then have x: "x < w" using c y by (simp add: unflatten_def)
        show "unflatten (length input) h w ?out ! c ! y ! x = input ! c ! y ! x"
          using c y x nth [OF c y x] by (simp add: unflatten_def)
      qed
    qed
  qed
  with flatten_forward_concat [OF assms] nth show ?thesis by blast
qed

theorem flatten_forward_spec_witness:
  "[[[1, 2, 3], [4, 5, 6]], [[7, 8, 9], [10, 11, 12]]] \<noteq> ([]::real list list list)
   \<and> (0::nat) < 2
   \<and> list_all (\<lambda>ch. length ch = 2) [[[1, 2, 3], [4, 5, 6]], [[7, 8, 9], [10, 11, 12::real]]]
   \<and> list_all (list_all (\<lambda>row. length row = 3))
        [[[1, 2, 3], [4, 5, 6]], [[7, 8, 9], [10, 11, 12::real]]]
   \<and> (\<exists>out. flatten_forward [[[1, 2, 3], [4, 5, 6]], [[7, 8, 9], [10, 11, 12]]] = Inr out
        \<and> length out = 12 \<and> out ! (1 * 2 * 3 + 1 * 3 + 2) = 12 \<and> out ! (1 * 2 * 3 + 0 * 3 + 1) = 8
        \<and> unflatten 2 2 3 out = [[[1, 2, 3], [4, 5, 6]], [[7, 8, 9], [10, 11, 12]]])"
proof -
  let ?t = "[[[1, 2, 3], [4, 5, 6]], [[7, 8, 9], [10, 11, 12::real]]]"
  have h1: "?t \<noteq> []" by simp
  have h2: "(0::nat) < 2" by simp
  have h3: "\<forall>ch \<in> set ?t. length ch = 2" by simp
  have h4: "\<forall>ch \<in> set ?t. \<forall>row \<in> set ch. length row = 3" by simp
  from flatten_forward_spec [OF h1 h2 h3 h4]
  obtain out where o: "flatten_forward ?t = Inr out" "length out = length ?t * 2 * 3"
    "\<forall>c < length ?t. \<forall>y < 2. \<forall>x < 3. out ! (c * 2 * 3 + y * 3 + x) = ?t ! c ! y ! x"
    "unflatten (length ?t) 2 3 out = ?t"
    by blast
  from o(3) [rule_format, of 1 1 2] have "out ! (1 * 2 * 3 + 1 * 3 + 2) = 12" by simp
  moreover from o(3) [rule_format, of 1 0 1] have "out ! (1 * 2 * 3 + 0 * 3 + 1) = 8" by simp
  moreover from o(2) have "length out = 12" by simp
  moreover from o(4) have "unflatten 2 2 3 out = ?t" by (simp add: numeral_2_eq_2)
  ultimately show ?thesis using o(1) by simp
qed


section \<open>Dense layer\<close>

lemma dense_cell_value:
  assumes "i < length (DenseBiases dl)" "i < length (Weights dl)"
    and "length input \<le> length (Weights dl ! i)"
  shows "dense_cell dl input (int i) =
     Inr (relu (DenseBiases dl ! i + (\<Sum>j<length input. Weights dl ! i ! j * input ! j)))"
proof -
  have "loop (\<lambda>acc j.
          and_then (index (Weights dl) (int i)) (\<lambda>wrow.
          and_then (index wrow j) (\<lambda>wij.
          and_then (index input j) (\<lambda>v.
          Inr (acc + wij * v))))) (map int [0..<length input]) (DenseBiases dl ! i)
     = Inr (DenseBiases dl ! i + (\<Sum>j<length input. Weights dl ! i ! j * input ! j))"
    by (rule loop_sum_upto) (simp add: assms(2) less_le_trans [OF _ assms(3)])
  then show ?thesis unfolding dense_cell_def using assms(1) by simp
qed

lemma dense_forward_value:
  assumes "length (DenseBiases dl) \<le> length (Weights dl)"
    and "\<forall>wrow \<in> set (Weights dl). length input \<le> length wrow"
  shows "dense_forward dl input =
     Inr (map (\<lambda>i. relu (DenseBiases dl ! i + (\<Sum>j<length input. Weights dl ! i ! j * input ! j)))
       [0..<length (DenseBiases dl)])"
proof -
  let ?n = "length (DenseBiases dl)"
  let ?g = "\<lambda>i. relu (DenseBiases dl ! i + (\<Sum>j<length input. Weights dl ! i ! j * input ! j))"
  have "for_each (dense_cell dl input) (map int [0..<?n]) = Inr (map ?g [0..<?n])"
  proof (rule for_each_upto)
    fix i
    assume i: "i < ?n"
    with assms(1) have iw: "i < length (Weights dl)" by simp
    then have "Weights dl ! i \<in> set (Weights dl)" by simp
    with assms(2) have "length input \<le> length (Weights dl ! i)" by blast
    with i iw show "dense_cell dl input (int i) = Inr (?g i)"
      by (intro dense_cell_value) simp_all
  qed
  then show ?thesis by (simp add: dense_forward_def)
qed

text \<open>
  Claim C8. For a weight matrix with one row per bias and an input vector whose length
  is the length of every weight row, the dense layer returns a vector with one entry
  per bias, and \<open>output[i] = relu(bias[i] + \<Sum>j. weight[i][j] * input[j])\<close>.
\<close>

theorem dense_forward_spec:
  assumes "length (Weights dl) = length (DenseBiases dl)"
    and "\<forall>wrow \<in> set (Weights dl). length wrow = length input"
  shows "\<exists>output. dense_forward dl input = Inr output
     \<and> length output = length (DenseBiases dl)
     \<and> (\<forall>i < length (DenseBiases dl).
          output ! i =
            relu (DenseBiases dl ! i + (\<Sum>j<length input. Weights dl ! i ! j * input ! j)))"
proof -
  have "length (DenseBiases dl) \<le> length (Weights dl)" using assms(1) by simp
  moreover have "\<forall>wrow \<in> set (Weights dl). length input \<le> length wrow" using assms(2) by simp
  ultimately have "dense_forward dl input =
     Inr (map (\<lambda>i. relu (DenseBiases dl ! i + (\<Sum>j<length input. Weights dl ! i ! j * input ! j)))
       [0..<length (DenseBiases dl)])"
    by (rule dense_forward_value)
  then show ?thesis by simp
qed

theorem dense_forward_spec_witness:
  "length (Weights \<lparr>Weights = [[1, 2], [3, -4]], DenseBiases = [1, 0]\<rparr>)
     = length (DenseBiases \<lparr>Weights = [[1, 2], [3, -4]], DenseBiases = [1, 0]\<rparr>)
   \<and> list_all (\<lambda>wrow. length wrow = length [1, 1::real])
         (Weights \<lparr>Weights = [[1, 2], [3, -4]], DenseBiases = [1, 0]\<rparr>)
   \<and> dense_forward \<lparr>Weights = [[1, 2], [3, -4]], DenseBiases = [1, 0]\<rparr> [1, 1] = Inr [4, 0]"
proof -
  let ?dl = "\<lparr>Weights = [[1, 2], [3, -4]], DenseBiases = [1, 0::real]\<rparr>"
  have h1: "length (Weights ?dl) = length (DenseBiases ?dl)" by simp
  have h2: "\<forall>wrow \<in> set (Weights ?dl). length wrow = length [1, 1::real]" by simp
  from dense_forward_spec [OF h1 h2]
  obtain out where o: "dense_forward ?dl [1, 1] = Inr out"
    "length out = length (DenseBiases ?dl)"
    "\<forall>i < length (DenseBiases ?dl). out ! i =
       relu (DenseBiases ?dl ! i + (\<Sum>j<length [1, 1::real]. Weights ?dl ! i ! j * [1, 1] ! j))"
    by blast
  have two: "{..<2::nat} = {0, 1}" by auto
  from o(3) [rule_format, of 0] have "out ! 0 = 4" by (simp add: relu_def two)
  moreover from o(3) [rule_format, of 1] have "out ! 1 = 0" by (simp add: relu_def two)
  moreover from o(2) have "length out = 2" by simp
  ultimately have "out = [4, 0]"
    by (intro nth_equalityI) (auto simp: less_Suc_eq numeral_2_eq_2)
  with o(1) show ?thesis by simp
qed


section \<open>The sign of the layer outputs\<close>

text \<open>
  Every cell that the convolution and the dense layer write is a value of \<^verbatim>\<open>relu\<close>, and
  \<^verbatim>\<open>relu\<close> is \<^verbatim>\<open>math.Max(0, x)\<close>: non-negative, except that it is NaN when \<open>x\<close> is NaN.
  A sum becomes NaN when two products overflow to infinities of opposite sign. This
  section is about the layers over \<open>f64\<close>.
\<close>

lemma upt_2: "[0..<2] = [0, 1::nat]"
  by code_simp

lemma upto_int_1: "upto_int 1 = [0]"
  by (simp add: upto_int_def)

lemma upto_int_2: "upto_int 2 = [0, 1]"
  by (simp add: upto_int_def upt_2)

lemma f64_round_small: "- 1000 \<le> r \<Longrightarrow> r \<le> 1000 \<Longrightarrow> f64_round r = Finite r"
proof -
  have "(1000::real) < 2 ^ 10" by simp
  also have "(2::real) ^ 10 \<le> 2 ^ 970" by (rule power_increasing) simp_all
  also have "(2::real) ^ 970 \<le> 2 ^ 1024 - 2 ^ 970"
  proof -
    have "(2::real) * 2 ^ 970 = 2 ^ 971" by simp
    also have "\<dots> \<le> 2 ^ 1024" by (rule power_increasing) simp_all
    finally show ?thesis by simp
  qed
  finally have "(1000::real) < 2 ^ 1024 - 2 ^ 970" .
  then show "- 1000 \<le> r \<Longrightarrow> r \<le> 1000 \<Longrightarrow> f64_round r = Finite r"
    unfolding f64_round_def by (simp del: power_numeral)
qed

lemma overflow_10: "(2::real) ^ 1024 - 2 ^ 970 \<le> 10 * 2 ^ 1023"
proof -
  have "(2::real) ^ 1024 = 2 * 2 ^ 1023" by simp
  moreover have "(0::real) \<le> 2 ^ 970" by simp
  moreover have "(0::real) \<le> 2 ^ 1023" by simp
  ultimately show ?thesis by linarith
qed

lemmas eval64 = index_def upto_int_1 upto_int_2 f64_round_small relu64_def go_max_def
  conv_out_size_def pool_out_size_def go_div_def make2D64_def make_slice_def pad2D64_def
  index3_64_def flatten_store64_def for_each_const upt_2

lemma relu64_ge0_or_nan: "ge0_or_nan (relu64 x)"
  by (cases x) (simp_all add: relu64_def go_max_def ge0_or_nan_def)

lemma relu64_nan: "relu64 NaN = NaN"
  by (simp add: relu64_def go_max_def)

lemma conv_cell64_ge0_or_nan:
  "conv_cell64 cl padded n kh kw f y x = Inr v \<Longrightarrow> ge0_or_nan v"
  unfolding conv_cell64_def
  apply (elim and_thenE)
  apply (simp only: sum.inject)
  apply hypsubst
  apply (rule relu64_ge0_or_nan)
  done

lemma conv_forward64_ge0_or_nan:
  assumes "conv_forward64 cl input = Inr t"
  shows "all3 ge0_or_nan t"
  using assms unfolding conv_forward64_def Let_def all3_def
  apply (elim and_thenE)
  apply (erule for_each3_list_all)
  apply (erule conv_cell64_ge0_or_nan)
  done

lemma dense_cell64_ge0_or_nan: "dense_cell64 dl input i = Inr v \<Longrightarrow> ge0_or_nan v"
  unfolding dense_cell64_def
  apply (elim and_thenE)
  apply (simp only: sum.inject)
  apply hypsubst
  apply (rule relu64_ge0_or_nan)
  done

lemma dense_forward64_ge0_or_nan:
  assumes "dense_forward64 dl input = Inr w"
  shows "list_all ge0_or_nan w"
  using assms unfolding dense_forward64_def
  apply (elim and_thenE)
  apply (erule for_each_list_all)
  apply (erule dense_cell64_ge0_or_nan)
  done

lemma index_list_all: "index xs i = Inr v \<Longrightarrow> list_all P xs \<Longrightarrow> P v"
  by (drule index_Inr_mem) (simp add: list_all_iff)

lemma index3_64_all:
  assumes "index3_64 t c y x = Inr v" and "all3 Q t"
  shows "Q v"
proof -
  from assms(1) obtain ch row where
    *: "index t c = Inr ch" "index ch y = Inr row" "index row x = Inr v"
    unfolding index3_64_def by (elim and_thenE)
  from index_list_all [OF *(1)] assms(2) have "list_all (list_all Q) ch"
    unfolding all3_def by blast
  with index_list_all [OF *(2)] have "list_all Q row" by blast
  with index_list_all [OF *(3)] show ?thesis by blast
qed

lemma pool_cell64_all:
  assumes "pool_cell64 mpl input c y x = Inr v" and "all3 Q input"
  shows "Q v"
proof -
  let ?step = "\<lambda>ky maxVal kx.
     and_then (index3_64 input c (y * PoolStride mpl + ky) (x * PoolStride mpl + kx))
       (\<lambda>val. Inr (if f64_gt val maxVal then val else maxVal))"
  have step: "Q m'" if "?step ky m kx = Inr m'" "Q m" for ky kx m m'
  proof -
    from that(1) obtain val where
      v: "index3_64 input c (y * PoolStride mpl + ky) (x * PoolStride mpl + kx) = Inr val"
      and m': "m' = (if f64_gt val m then val else m)"
      by (elim and_thenE) simp
    have "Q val" by (rule index3_64_all [OF v assms(2)])
    with that(2) m' show ?thesis by simp
  qed
  have inner: "Q m'" if "loop (?step ky) ks m = Inr m'" "Q m" for ky ks m m'
    by (rule loop_invariant [OF that(1), where P = Q]) (fact that(2), erule step)
  from assms(1) obtain m0 where
    m0: "index3_64 input c (y * PoolStride mpl) (x * PoolStride mpl) = Inr m0"
    and l: "loop (\<lambda>maxVal ky. loop (?step ky) (upto_int (PoolSize mpl)) maxVal)
              (upto_int (PoolSize mpl)) m0 = Inr v"
    unfolding pool_cell64_def Let_def by (elim and_thenE)
  have q0: "Q m0" by (rule index3_64_all [OF m0 assms(2)])
  show ?thesis
    by (rule loop_invariant [OF l, where P = Q]) (fact q0, erule inner)
qed

lemma pool_forward64_all:
  assumes "pool_forward64 mpl input = Inr t" and "all3 Q input"
  shows "all3 Q t"
  using assms(1) unfolding pool_forward64_def Let_def all3_def [of Q t]
  apply (elim and_thenE)
  apply (erule for_each3_list_all)
  apply (erule pool_cell64_all [OF _ assms(2)])
  done

lemma flatten_store64_all:
  assumes "flatten_store64 s v = Inr s'" and "list_all Q (fst s)" and "Q v"
  shows "list_all Q (fst s')"
proof -
  obtain out i where s: "s = (out, i)" by (cases s)
  with assms(1) have "fst s' = out[i := v]"
    by (auto simp: flatten_store64_def split: if_splits)
  moreover have "set (out[i := v]) \<subseteq> insert v (set out)" by (rule set_update_subset_insert)
  ultimately show ?thesis using assms(2,3) s unfolding list_all_iff by auto
qed

lemma flatten_forward64_all:
  assumes "flatten_forward64 input = Inr w" and "all3 Q input" and "Q (Finite 0)"
  shows "list_all Q w"
proof -
  have row: "list_all Q (fst s')"
    if "loop flatten_store64 r s = Inr s'" "list_all Q (fst s)" "list_all Q r" for r s s'
  proof (rule loop_invariant [OF that(1), where P = "\<lambda>s. list_all Q (fst s)"])
    show "list_all Q (fst s)" by fact
  next
    fix t a t'
    assume "list_all Q (fst t)" "a \<in> set r" "flatten_store64 t a = Inr t'"
    moreover from \<open>a \<in> set r\<close> that(3) have "Q a" by (simp add: list_all_iff)
    ultimately show "list_all Q (fst t')" by (intro flatten_store64_all [of t a t']) simp_all
  qed
  have chan: "list_all Q (fst s')"
    if "loop (\<lambda>s r. loop flatten_store64 r s) ch s = Inr s'" "list_all Q (fst s)"
      "list_all (list_all Q) ch" for ch s s'
  proof (rule loop_invariant [OF that(1), where P = "\<lambda>s. list_all Q (fst s)"])
    show "list_all Q (fst s)" by fact
  next
    fix t r t'
    assume "list_all Q (fst t)" "r \<in> set ch" "loop flatten_store64 r t = Inr t'"
    moreover from \<open>r \<in> set ch\<close> that(3) have "list_all Q r" by (simp add: list_all_iff)
    ultimately show "list_all Q (fst t')" by (intro row [of r t t']) simp_all
  qed
  from assms(1) obtain out s' where
    out: "make_slice (int (length input * length (input ! 0) * length (input ! 0 ! 0))) (Finite 0)
        = Inr out"
    and l: "loop (\<lambda>s ch. loop (\<lambda>s r. loop flatten_store64 r s) ch s) input (out, 0) = Inr s'"
    and w: "w = fst s'"
    unfolding flatten_forward64_def Let_def
    by (elim and_thenE) (auto simp: index_def split: if_splits)
  from out assms(3) have qo: "list_all Q out"
    by (auto simp: make_slice_def list_all_iff split: if_splits)
  have "list_all Q (fst s')"
  proof (rule loop_invariant [OF l, where P = "\<lambda>s. list_all Q (fst s)"])
    show "list_all Q (fst (out, 0::nat))" using qo by simp
  next
    fix t ch t'
    assume "list_all Q (fst t)" "ch \<in> set input"
      "loop (\<lambda>s r. loop flatten_store64 r s) ch t = Inr t'"
    moreover from \<open>ch \<in> set input\<close> assms(2) have "list_all (list_all Q) ch"
      by (simp add: all3_def list_all_iff)
    ultimately show "list_all Q (fst t')" by (intro chan [of ch t t']) simp_all
  qed
  with w show ?thesis by simp
qed


text \<open>
  Finite inputs on which the dense layer and the convolution layer return NaN:
  \<open>10 * 2^1023\<close> overflows to \<open>+Inf\<close>, \<open>-10 * 2^1023\<close> to \<open>-Inf\<close>, their sum is NaN, and
  \<^verbatim>\<open>math.Max(0, NaN)\<close> is NaN, which is not \<open>>= 0\<close>. The same happens along a chain of two
  dense layers, where the first returns \<open>+Inf\<close> twice on a finite input and the second
  subtracts one from the other; there every product is already infinite, so the result
  does not depend on a product being rounded before it is added.
\<close>

lemma dense_overflow_nan:
  assumes "2 ^ 1024 - 2 ^ 970 \<le> 10 * B"
  shows "dense_forward64 \<lparr>Weights64 = [[Finite 10, Finite (- 10)]], DenseBiases64 = [Finite 0]\<rparr>
     [Finite B, Finite B] = Inr [NaN]"
proof -
  have m1: "f64_round (10 * B) = PosInf"
    using assms by (simp add: f64_round_def)
  have m2: "f64_round (- (10 * B)) = NegInf"
    using assms by (simp add: f64_round_def)
  have "dense_cell64 \<lparr>Weights64 = [[Finite 10, Finite (- 10)]], DenseBiases64 = [Finite 0]\<rparr>
     [Finite B, Finite B] 0 = Inr NaN"
    by (simp add: dense_cell64_def index_def upto_int_1 upto_int_2 m1 m2 relu64_def go_max_def)
  then show ?thesis by (simp add: dense_forward64_def make_slice_def)
qed

lemma conv_overflow_nan:
  assumes "2 ^ 1024 - 2 ^ 970 \<le> 10 * B"
  shows "conv_forward64
     \<lparr>Filters64 = [[[[Finite 10, Finite (- 10)]]]], Biases64 = [Finite 0], Stride64 = 1, Padding64 = 0\<rparr>
     [[[Finite B, Finite B]]] = Inr [[[NaN]]]"
proof -
  let ?cl = "\<lparr>Filters64 = [[[[Finite 10, Finite (- 10)]]]], Biases64 = [Finite 0],
      Stride64 = 1, Padding64 = 0\<rparr>"
  have m1: "f64_round (B * 10) = PosInf"
    using assms by (simp add: f64_round_def mult.commute)
  have m2: "f64_round (- (B * 10)) = NegInf"
    using assms by (simp add: f64_round_def mult.commute)
  have cell: "conv_cell64 ?cl [[[Finite B, Finite B]]] 1 1 2 0 0 0 = Inr NaN"
    by (simp add: conv_cell64_def index_def upto_int_1 upto_int_2 m1 m2 relu64_def go_max_def)
  then have cell': "conv_cell64 ?cl [[[Finite B, Finite B]]] (Suc 0) (Suc 0) (Suc (Suc 0)) 0 0 0
      = Inr NaN"
    by (simp add: numeral_2_eq_2)
  show ?thesis
    by (simp add: conv_forward64_def index_def conv_out_size_def go_div_def make2D64_def
        make_slice_def pad2D64_def upto_int_1 cell')
qed

lemma dense_overflow_inf:
  assumes "2 ^ 1024 - 2 ^ 970 \<le> 10 * B"
  shows "dense_forward64
     \<lparr>Weights64 = [[Finite 10], [Finite 10]], DenseBiases64 = [Finite 0, Finite 0]\<rparr>
     [Finite B] = Inr [PosInf, PosInf]"
proof -
  have m1: "f64_round (10 * B) = PosInf"
    using assms by (simp add: f64_round_def)
  have c0: "dense_cell64
     \<lparr>Weights64 = [[Finite 10], [Finite 10]], DenseBiases64 = [Finite 0, Finite 0]\<rparr>
     [Finite B] 0 = Inr PosInf"
    by (simp add: dense_cell64_def index_def upto_int_1 m1 relu64_def go_max_def)
  have c1: "dense_cell64
     \<lparr>Weights64 = [[Finite 10], [Finite 10]], DenseBiases64 = [Finite 0, Finite 0]\<rparr>
     [Finite B] 1 = Inr PosInf"
    by (simp add: dense_cell64_def index_def upto_int_1 m1 relu64_def go_max_def)
  show ?thesis by (simp add: dense_forward64_def make_slice_def upt_2 c0 c1)
qed

lemma dense_inf_nan:
  "dense_forward64 \<lparr>Weights64 = [[Finite 1, Finite (- 1)]], DenseBiases64 = [Finite 0]\<rparr>
     [PosInf, PosInf] = Inr [NaN]"
proof -
  have "dense_cell64 \<lparr>Weights64 = [[Finite 1, Finite (- 1)]], DenseBiases64 = [Finite 0]\<rparr>
     [PosInf, PosInf] 0 = Inr NaN"
    by (simp add: dense_cell64_def index_def upto_int_1 upto_int_2 relu64_def go_max_def)
  then show ?thesis by (simp add: dense_forward64_def make_slice_def)
qed

theorem forward_outputs_nan_counterexample:
  "dense_forward64 \<lparr>Weights64 = [[Finite 10, Finite (- 10)]], DenseBiases64 = [Finite 0]\<rparr>
     [Finite (2 ^ 1023), Finite (2 ^ 1023)] = Inr [NaN]
   \<and> \<not> list_all f64_ge0 [NaN]
   \<and> conv_forward64
       \<lparr>Filters64 = [[[[Finite 10, Finite (- 10)]]]], Biases64 = [Finite 0],
          Stride64 = 1, Padding64 = 0\<rparr>
       [[[Finite (2 ^ 1023), Finite (2 ^ 1023)]]] = Inr [[[NaN]]]
   \<and> \<not> all3 f64_ge0 [[[NaN]]]
   \<and> dense_forward64
       \<lparr>Weights64 = [[Finite 10], [Finite 10]], DenseBiases64 = [Finite 0, Finite 0]\<rparr>
       [Finite (2 ^ 1023)] = Inr [PosInf, PosInf]
   \<and> dense_forward64 \<lparr>Weights64 = [[Finite 1, Finite (- 1)]], DenseBiases64 = [Finite 0]\<rparr>
       [PosInf, PosInf] = Inr [NaN]"
proof -
  have "\<not> list_all f64_ge0 [NaN]" by simp
  moreover have "\<not> all3 f64_ge0 [[[NaN]]]" by (simp add: all3_def)
  ultimately show ?thesis
    using dense_overflow_nan [OF overflow_10] conv_overflow_nan [OF overflow_10]
      dense_overflow_inf [OF overflow_10] dense_inf_nan
    by (intro conjI)
qed

text \<open>
  Claim C10, as the code has it. Every value that the convolution layer or the dense
  layer returns is non-negative or NaN; the pooling layer and the flatten layer return
  only elements of their input (and the zeros of \<^verbatim>\<open>make\<close>), so they return non-negative
  values on a non-negative input, and values that are non-negative or NaN on such an
  input; hence, along the chain of \<^verbatim>\<open>main\<close> (convolution, pooling, convolution, pooling,
  flatten, dense, dense), every tensor after the first convolution and the final vector
  are elementwise non-negative or NaN.
\<close>

theorem forward_outputs_ge0_or_nan:
  "(conv_forward64 cl input = Inr t \<longrightarrow> all3 ge0_or_nan t)
   \<and> (dense_forward64 dl v = Inr w \<longrightarrow> list_all ge0_or_nan w)
   \<and> (all3 f64_ge0 pin \<and> pool_forward64 mpl pin = Inr pout \<longrightarrow> all3 f64_ge0 pout)
   \<and> (all3 ge0_or_nan qin \<and> pool_forward64 mpl qin = Inr qout \<longrightarrow> all3 ge0_or_nan qout)
   \<and> (all3 f64_ge0 fin \<and> flatten_forward64 fin = Inr fout \<longrightarrow> list_all f64_ge0 fout)
   \<and> (all3 ge0_or_nan gin \<and> flatten_forward64 gin = Inr gout \<longrightarrow> list_all ge0_or_nan gout)
   \<and> (conv_forward64 conv1 x0 = Inr x1 \<and> pool_forward64 pool1 x1 = Inr x2
        \<and> conv_forward64 conv2 x2 = Inr x3 \<and> pool_forward64 pool2 x3 = Inr x4
        \<and> flatten_forward64 x4 = Inr flatX
        \<and> dense_forward64 dense1 flatX = Inr denseOut
        \<and> dense_forward64 dense2 denseOut = Inr output
      \<longrightarrow> all3 ge0_or_nan x1 \<and> all3 ge0_or_nan x2 \<and> all3 ge0_or_nan x3 \<and> all3 ge0_or_nan x4
          \<and> list_all ge0_or_nan flatX \<and> list_all ge0_or_nan denseOut
          \<and> list_all ge0_or_nan output)"
proof (intro conjI impI)
  show "all3 ge0_or_nan t" if "conv_forward64 cl input = Inr t"
    using that by (rule conv_forward64_ge0_or_nan)
  show "list_all ge0_or_nan w" if "dense_forward64 dl v = Inr w"
    using that by (rule dense_forward64_ge0_or_nan)
  show "all3 f64_ge0 pout" if "all3 f64_ge0 pin \<and> pool_forward64 mpl pin = Inr pout"
    using that pool_forward64_all by blast
  show "all3 ge0_or_nan qout" if "all3 ge0_or_nan qin \<and> pool_forward64 mpl qin = Inr qout"
    using that pool_forward64_all by blast
  show "list_all f64_ge0 fout" if "all3 f64_ge0 fin \<and> flatten_forward64 fin = Inr fout"
  proof -
    have "f64_ge0 (Finite 0)" by simp
    with that show ?thesis using flatten_forward64_all by blast
  qed
  show "list_all ge0_or_nan gout" if "all3 ge0_or_nan gin \<and> flatten_forward64 gin = Inr gout"
  proof -
    have "ge0_or_nan (Finite 0)" by (simp add: ge0_or_nan_def)
    with that show ?thesis using flatten_forward64_all by blast
  qed
next
  assume "conv_forward64 conv1 x0 = Inr x1 \<and> pool_forward64 pool1 x1 = Inr x2
        \<and> conv_forward64 conv2 x2 = Inr x3 \<and> pool_forward64 pool2 x3 = Inr x4
        \<and> flatten_forward64 x4 = Inr flatX
        \<and> dense_forward64 dense1 flatX = Inr denseOut
        \<and> dense_forward64 dense2 denseOut = Inr output"
  then have h: "conv_forward64 conv1 x0 = Inr x1" "pool_forward64 pool1 x1 = Inr x2"
    "conv_forward64 conv2 x2 = Inr x3" "pool_forward64 pool2 x3 = Inr x4"
    "flatten_forward64 x4 = Inr flatX" "dense_forward64 dense1 flatX = Inr denseOut"
    "dense_forward64 dense2 denseOut = Inr output"
    by simp_all
  have z: "ge0_or_nan (Finite 0)" by (simp add: ge0_or_nan_def)
  have 1: "all3 ge0_or_nan x1" by (rule conv_forward64_ge0_or_nan [OF h(1)])
  have 2: "all3 ge0_or_nan x2" by (rule pool_forward64_all [OF h(2) 1])
  have 3: "all3 ge0_or_nan x3" by (rule conv_forward64_ge0_or_nan [OF h(3)])
  have 4: "all3 ge0_or_nan x4" by (rule pool_forward64_all [OF h(4) 3])
  have 5: "list_all ge0_or_nan flatX" by (rule flatten_forward64_all [OF h(5) 4 z])
  have 6: "list_all ge0_or_nan denseOut" by (rule dense_forward64_ge0_or_nan [OF h(6)])
  have 7: "list_all ge0_or_nan output" by (rule dense_forward64_ge0_or_nan [OF h(7)])
  from 1 show "all3 ge0_or_nan x1" .
  from 2 show "all3 ge0_or_nan x2" .
  from 3 show "all3 ge0_or_nan x3" .
  from 4 show "all3 ge0_or_nan x4" .
  from 5 show "list_all ge0_or_nan flatX" .
  from 6 show "list_all ge0_or_nan denseOut" .
  from 7 show "list_all ge0_or_nan output" .
qed


theorem forward_outputs_ge0_or_nan_witness:
  "conv_forward64 \<lparr>Filters64 = [[[[Finite 1]]]], Biases64 = [Finite 0], Stride64 = 1, Padding64 = 0\<rparr>
      [[[Finite 1, Finite (- 2)], [Finite (- 3), Finite 4]]]
     = Inr [[[Finite 1, Finite 0], [Finite 0, Finite 4]]]
   \<and> pool_forward64 \<lparr>PoolSize = 1, PoolStride = 1\<rparr> [[[Finite 1, Finite 0], [Finite 0, Finite 4]]]
     = Inr [[[Finite 1, Finite 0], [Finite 0, Finite 4]]]
   \<and> conv_forward64 \<lparr>Filters64 = [[[[Finite (- 1)]]]], Biases64 = [Finite 2], Stride64 = 1, Padding64 = 0\<rparr>
      [[[Finite 1, Finite 0], [Finite 0, Finite 4]]]
     = Inr [[[Finite 1, Finite 2], [Finite 2, Finite 0]]]
   \<and> pool_forward64 \<lparr>PoolSize = 2, PoolStride = 2\<rparr> [[[Finite 1, Finite 2], [Finite 2, Finite 0]]]
     = Inr [[[Finite 2]]]
   \<and> flatten_forward64 [[[Finite 2]]] = Inr [Finite 2]
   \<and> dense_forward64 \<lparr>Weights64 = [[Finite 1], [Finite (- 1)]], DenseBiases64 = [Finite 0, Finite 0]\<rparr>
      [Finite 2] = Inr [Finite 2, Finite 0]
   \<and> dense_forward64 \<lparr>Weights64 = [[Finite 1, Finite 1]], DenseBiases64 = [Finite (- 3)]\<rparr>
      [Finite 2, Finite 0] = Inr [Finite 0]
   \<and> pool_forward64 \<lparr>PoolSize = 2, PoolStride = 2\<rparr> [[[NaN, Finite 1], [Finite 2, Finite 0]]]
     = Inr [[[NaN]]]
   \<and> flatten_forward64 [[[NaN]]] = Inr [NaN]
   \<and> all3 ge0_or_nan [[[Finite 1, Finite 0], [Finite 0, Finite 4]]]
   \<and> all3 ge0_or_nan [[[Finite 1, Finite 2], [Finite 2, Finite 0]]]
   \<and> all3 ge0_or_nan [[[Finite 2]]] \<and> all3 f64_ge0 [[[Finite 2]]]
   \<and> all3 ge0_or_nan [[[NaN]]]
   \<and> list_all ge0_or_nan [Finite 2] \<and> list_all f64_ge0 [Finite 2]
   \<and> list_all ge0_or_nan [NaN]
   \<and> list_all ge0_or_nan [Finite 2, Finite 0] \<and> list_all ge0_or_nan [Finite 0]"
proof -
  let ?a = "[[[Finite 1, Finite 0], [Finite 0, Finite 4]]]"
  let ?b = "[[[Finite 1, Finite 2], [Finite 2, Finite 0]]]"
  let ?n = "[[[NaN, Finite 1], [Finite 2, Finite 0]]]"
  have e1: "conv_forward64
      \<lparr>Filters64 = [[[[Finite 1]]]], Biases64 = [Finite 0], Stride64 = 1, Padding64 = 0\<rparr>
      [[[Finite 1, Finite (- 2)], [Finite (- 3), Finite 4]]] = Inr ?a"
    by (simp add: conv_forward64_def conv_cell64_def eval64)
  have e2: "pool_forward64 \<lparr>PoolSize = 1, PoolStride = 1\<rparr> ?a = Inr ?a"
    by (simp add: pool_forward64_def pool_cell64_def eval64)
  have e3: "conv_forward64
      \<lparr>Filters64 = [[[[Finite (- 1)]]]], Biases64 = [Finite 2], Stride64 = 1, Padding64 = 0\<rparr>
      ?a = Inr ?b"
    by (simp add: conv_forward64_def conv_cell64_def eval64)
  have e4: "pool_forward64 \<lparr>PoolSize = 2, PoolStride = 2\<rparr> ?b = Inr [[[Finite 2]]]"
    by (simp add: pool_forward64_def pool_cell64_def eval64)
  have e5: "flatten_forward64 [[[Finite 2]]] = Inr [Finite 2]"
    by (simp add: flatten_forward64_def eval64)
  have e6: "dense_forward64
      \<lparr>Weights64 = [[Finite 1], [Finite (- 1)]], DenseBiases64 = [Finite 0, Finite 0]\<rparr>
      [Finite 2] = Inr [Finite 2, Finite 0]"
    by (simp add: dense_forward64_def dense_cell64_def eval64)
  have e7: "dense_forward64 \<lparr>Weights64 = [[Finite 1, Finite 1]], DenseBiases64 = [Finite (- 3)]\<rparr>
      [Finite 2, Finite 0] = Inr [Finite 0]"
    by (simp add: dense_forward64_def dense_cell64_def eval64)
  have e8: "pool_forward64 \<lparr>PoolSize = 2, PoolStride = 2\<rparr> ?n = Inr [[[NaN]]]"
    by (simp add: pool_forward64_def pool_cell64_def eval64)
  have e9: "flatten_forward64 [[[NaN]]] = Inr [NaN]"
    by (simp add: flatten_forward64_def eval64)
  note T = forward_outputs_ge0_or_nan
  have c: "all3 ge0_or_nan ?a \<and> all3 ge0_or_nan ?a \<and> all3 ge0_or_nan ?b
      \<and> all3 ge0_or_nan [[[Finite 2]]] \<and> list_all ge0_or_nan [Finite 2]
      \<and> list_all ge0_or_nan [Finite 2, Finite 0] \<and> list_all ge0_or_nan [Finite 0]"
    using e1 e2 e3 e4 e5 e6 e7
    by (intro T [THEN conjunct2, THEN conjunct2, THEN conjunct2, THEN conjunct2,
          THEN conjunct2, THEN conjunct2, rule_format]) (intro conjI)
  have c1: "all3 ge0_or_nan ?a" by (rule T [THEN conjunct1, rule_format, OF e1])
  have c2: "list_all ge0_or_nan [Finite 2, Finite 0]"
    by (rule T [THEN conjunct2, THEN conjunct1, rule_format, OF e6])
  have c3: "all3 f64_ge0 [[[Finite 2]]]"
    by (rule T [THEN conjunct2, THEN conjunct2, THEN conjunct1, rule_format,
          of ?b "\<lparr>PoolSize = 2, PoolStride = 2\<rparr>"])
       (simp add: e4 all3_def)
  have c4: "all3 ge0_or_nan [[[NaN]]]"
    by (rule T [THEN conjunct2, THEN conjunct2, THEN conjunct2, THEN conjunct1, rule_format,
          of ?n "\<lparr>PoolSize = 2, PoolStride = 2\<rparr>"])
       (simp add: e8 all3_def ge0_or_nan_def)
  have c5: "list_all f64_ge0 [Finite 2]"
    by (rule T [THEN conjunct2, THEN conjunct2, THEN conjunct2, THEN conjunct2, THEN conjunct1,
          rule_format, of "[[[Finite 2]]]"])
       (simp add: e5 c3)
  have c6: "list_all ge0_or_nan [NaN]"
    by (rule T [THEN conjunct2, THEN conjunct2, THEN conjunct2, THEN conjunct2, THEN conjunct2,
          THEN conjunct1, rule_format, of "[[[NaN]]]"])
       (simp add: e9 c4)
  from e1 e2 e3 e4 e5 e6 e7 e8 e9 c c3 c4 c5 c6 show ?thesis by (intro conjI) simp_all
qed


section \<open>Inputs whose shape disagrees with the layer\<close>

text \<open>
  The source compares no shapes. The loops of the convolution run over the channels of
  the input and those of the dense layer over the entries of the input vector; the filter
  bank and the weight rows are only indexed. An input with too many channels or entries
  runs into Go's index check; one with too few is processed with the leading channels
  or columns of the parameters.
\<close>

lemma ipo_dense_forward: "index_panic_only (dense_forward dl input)"
  unfolding dense_forward_def dense_cell_def
  by (simp, intro ipo_for_each ipo_and_then ipo_loop ipo_index ipo_Inr)

lemma ipo_conv_cell: "index_panic_only (conv_cell cl padded C KH KW f y x)"
  unfolding conv_cell_def Let_def
  by (intro ipo_and_then ipo_loop ipo_index ipo_Inr)

lemma dense_forward_longer_input:
  assumes "DenseBiases dl \<noteq> []" "Weights dl \<noteq> []" "length (Weights dl ! 0) < length input"
  shows "dense_forward dl input = Inl IndexOutOfRange"
proof (rule ipo_fails [OF ipo_dense_forward])
  let ?m = "length (Weights dl ! 0)"
  have body: "\<exists>e. and_then (index (Weights dl) 0) (\<lambda>wrow.
          and_then (index wrow (int ?m)) (\<lambda>wij.
          and_then (index input (int ?m)) (\<lambda>v. Inr (acc + wij * v)))) = Inl e" for acc :: real
    using assms(2) by (simp add: index_def)
  have "\<exists>e. loop (\<lambda>acc j.
          and_then (index (Weights dl) 0) (\<lambda>wrow.
          and_then (index wrow j) (\<lambda>wij.
          and_then (index input j) (\<lambda>v. Inr (acc + wij * v)))))
        (map int [0..<length input]) b = Inl e" for b
    by (rule loop_fails [where x = "int ?m"]) (use assms(3) in simp, rule body)
  then have "\<exists>e. dense_cell dl input 0 = Inl e"
    unfolding dense_cell_def using assms(1)
    by (auto simp: index_def intro: and_then_fails)
  then have "\<exists>e. for_each (dense_cell dl input) (map int [0..<length (DenseBiases dl)]) = Inl e"
    using assms(1) by (intro for_each_fails [where x = 0]) simp_all
  then show "\<exists>e. dense_forward dl input = Inl e"
    by (simp add: dense_forward_def)
qed


lemma conv_forward_more_channels:
  assumes flt: "Filters cl \<noteq> []" "\<forall>flt \<in> set (Filters cl). length flt = CF" "0 < CF"
      "\<forall>flt \<in> set (Filters cl). \<forall>k \<in> set flt. length k = KH"
      "\<forall>flt \<in> set (Filters cl). \<forall>k \<in> set flt. \<forall>row \<in> set k. length row = KW"
    and inp: "input \<noteq> []" "\<forall>ch \<in> set input. length ch = h"
      "\<forall>ch \<in> set input. \<forall>row \<in> set ch. length row = w" "0 < h"
    and cfg: "Stride cl = int S" "0 < S" "Padding cl = int p"
    and fit: "0 < KH" "KH \<le> h + 2 * p" "KW \<le> w + 2 * p"
    and kw: "0 < KW"
    and more: "CF < length input"
  shows "conv_forward cl input = Inl IndexOutOfRange"
proof -
  let ?C = "length input" and ?N = "length (Filters cl)"
  let ?H = "h + 2 * p" and ?W = "w + 2 * p"
  let ?oh = "(h + 2 * p - KH) div S + 1" and ?ow = "(w + 2 * p - KW) div S + 1"
  from conv_forward_nest [OF flt inp cfg fit] obtain padded where
    pc: "length padded = ?C" "\<forall>c < ?C. length (padded ! c) = ?H"
      "\<forall>c < ?C. \<forall>i < ?H. length (padded ! c ! i) = ?W"
    and nest: "conv_forward cl input =
      for_each (\<lambda>f. for_each (\<lambda>y. for_each (\<lambda>x. conv_cell cl padded ?C KH KW f y x)
        (map int [0..<?ow])) (map int [0..<?oh])) (map int [0..<?N])"
    by blast
  from flt(1) have "Filters cl ! 0 \<in> set (Filters cl)" by simp
  with flt(2) have lF0: "length (Filters cl ! 0) = CF" by blast
  have H: "0 < ?H" and W: "0 < ?W" using fit kw by linarith+
  have l1: "length (padded ! CF) = ?H" using pc(2) more by simp
  have l2: "length (padded ! CF ! 0) = ?W" using pc(3) more H by simp
  have body: "\<exists>e. and_then (index padded (int CF)) (\<lambda>pc.
              and_then (index pc (0 * int S + 0)) (\<lambda>prow.
              and_then (index prow (0 * int S + 0)) (\<lambda>a.
              and_then (index (Filters cl) 0) (\<lambda>ff.
              and_then (index ff (int CF)) (\<lambda>fc.
              and_then (index fc 0) (\<lambda>frow.
              and_then (index frow 0) (\<lambda>b.
              Inr (acc + a * b)))))))) = Inl e" for acc :: real
    using more flt(1) H W by (simp add: index_def pc(1) l1 l2 lF0)
  have kx: "\<exists>e. loop (\<lambda>sum kx.
              and_then (index padded (int CF)) (\<lambda>pc.
              and_then (index pc (0 * int S + 0)) (\<lambda>prow.
              and_then (index prow (0 * int S + kx)) (\<lambda>a.
              and_then (index (Filters cl) 0) (\<lambda>ff.
              and_then (index ff (int CF)) (\<lambda>fc.
              and_then (index fc 0) (\<lambda>frow.
              and_then (index frow kx) (\<lambda>b.
              Inr (sum + a * b))))))))) (map int [0..<KW]) acc = Inl e" for acc
    by (rule loop_fails [where x = 0]) (use kw in simp, rule body)
  have ky: "\<exists>e. loop (\<lambda>sum ky. loop (\<lambda>sum kx.
              and_then (index padded (int CF)) (\<lambda>pc.
              and_then (index pc (0 * int S + ky)) (\<lambda>prow.
              and_then (index prow (0 * int S + kx)) (\<lambda>a.
              and_then (index (Filters cl) 0) (\<lambda>ff.
              and_then (index ff (int CF)) (\<lambda>fc.
              and_then (index fc ky) (\<lambda>frow.
              and_then (index frow kx) (\<lambda>b.
              Inr (sum + a * b))))))))) (map int [0..<KW]) sum) (map int [0..<KH]) acc = Inl e"
    for acc
    by (rule loop_fails [where x = 0]) (use fit(1) in simp, rule kx)
  have "\<exists>e. loop (\<lambda>sum c. loop (\<lambda>sum ky. loop (\<lambda>sum kx.
              and_then (index padded c) (\<lambda>pc.
              and_then (index pc (0 * int S + ky)) (\<lambda>prow.
              and_then (index prow (0 * int S + kx)) (\<lambda>a.
              and_then (index (Filters cl) 0) (\<lambda>ff.
              and_then (index ff c) (\<lambda>fc.
              and_then (index fc ky) (\<lambda>frow.
              and_then (index frow kx) (\<lambda>b.
              Inr (sum + a * b))))))))) (map int [0..<KW]) sum) (map int [0..<KH]) sum)
            (map int [0..<?C]) 0 = Inl e"
    by (rule loop_fails [where x = "int CF"]) (use more in simp, rule ky)
  then have cell: "\<exists>e. conv_cell cl padded ?C KH KW 0 0 0 = Inl e"
    unfolding conv_cell_def Let_def cfg upto_int_int by (rule and_then_fails)
  have x0: "\<exists>e. for_each (\<lambda>x. conv_cell cl padded ?C KH KW 0 0 x) (map int [0..<?ow]) = Inl e"
    by (rule for_each_fails [where x = 0]) (rule zero_mem_upto, simp, rule cell)
  have y0: "\<exists>e. for_each (\<lambda>y. for_each (\<lambda>x. conv_cell cl padded ?C KH KW 0 y x)
        (map int [0..<?ow])) (map int [0..<?oh]) = Inl e"
    by (rule for_each_fails [where x = 0]) (rule zero_mem_upto, simp, rule x0)
  have "\<exists>e. for_each (\<lambda>f. for_each (\<lambda>y. for_each (\<lambda>x. conv_cell cl padded ?C KH KW f y x)
        (map int [0..<?ow])) (map int [0..<?oh])) (map int [0..<?N]) = Inl e"
    by (rule for_each_fails [where x = 0]) (rule zero_mem_upto, use flt(1) in simp, rule y0)
  moreover have "index_panic_only (for_each (\<lambda>f. for_each (\<lambda>y. for_each (\<lambda>x.
        conv_cell cl padded ?C KH KW f y x)
        (map int [0..<?ow])) (map int [0..<?oh])) (map int [0..<?N]))"
    by (intro ipo_for_each ipo_conv_cell)
  ultimately show ?thesis unfolding nest by (intro ipo_fails)
qed


text \<open>
  A 1-channel input to a filter bank with 2 channels per filter, and a vector of length 1
  to a dense layer with weight rows of length 2: both return an output.
\<close>

theorem shape_mismatch_counterexample:
  "length [[[5::real]]] \<noteq> length (Filters \<lparr>Filters = [[[[1]], [[1]]]], Biases = [0], Stride = 1, Padding = 0\<rparr> ! 0)
   \<and> conv_forward \<lparr>Filters = [[[[1]], [[1]]]], Biases = [0], Stride = 1, Padding = 0\<rparr> [[[5]]]
       = Inr [[[5]]]
   \<and> length [1::real] \<noteq> length (Weights \<lparr>Weights = [[1, 2], [3, 4]], DenseBiases = [0, 0]\<rparr> ! 0)
   \<and> dense_forward \<lparr>Weights = [[1, 2], [3, 4]], DenseBiases = [0, 0]\<rparr> [1] = Inr [1, 3]"
proof -
  have "conv_forward \<lparr>Filters = [[[[1]], [[1]]]], Biases = [0], Stride = 1, Padding = 0\<rparr> [[[5]]]
       = Inr [[[5]]]" by code_simp
  moreover have "dense_forward \<lparr>Weights = [[1, 2], [3, 4]], DenseBiases = [0, 0]\<rparr> [1] = Inr [1, 3]"
    by code_simp
  ultimately show ?thesis by simp
qed

text \<open>
  Claim C3, as the code has it. For a well-formed convolution layer whose filters have
  \<open>CF\<close> channels and a well-formed dense layer whose weight rows have length \<open>m\<close>: an input
  of more than \<open>CF\<close> channels, or a vector longer than \<open>m\<close>, makes Forward fail with the
  index-out-of-range panic and no output; an input of fewer than \<open>CF\<close> channels (at least
  one), or a vector shorter than \<open>m\<close>, is not rejected: Forward returns the output computed
  from the first \<open>len(input)\<close> channels of every filter, or columns of every weight row.
\<close>

theorem shape_mismatch_behaviour:
  assumes "Filters cl \<noteq> []" and "\<forall>flt \<in> set (Filters cl). length flt = CF" and "0 < CF"
    and "\<forall>flt \<in> set (Filters cl). \<forall>k \<in> set flt. length k = KH"
    and "\<forall>flt \<in> set (Filters cl). \<forall>k \<in> set flt. \<forall>row \<in> set k. length row = KW"
    and "input \<noteq> []" and "\<forall>ch \<in> set input. length ch = h"
    and "\<forall>ch \<in> set input. \<forall>row \<in> set ch. length row = w" and "0 < h"
    and "Stride cl = int S" and "0 < S" and "Padding cl = int p"
    and "0 < KH" and "KH \<le> h + 2 * p" and "KW \<le> w + 2 * p"
    and "0 < KW" and "length (Biases cl) = length (Filters cl)"
    and "length (Weights dl) = length (DenseBiases dl)" and "DenseBiases dl \<noteq> []"
    and "\<forall>wrow \<in> set (Weights dl). length wrow = m"
  shows "(CF < length input \<longrightarrow> conv_forward cl input = Inl IndexOutOfRange)
     \<and> (length input < CF \<longrightarrow>
          (\<exists>padded. length padded = length input
             \<and> (\<forall>c < length input. pad2D (input ! c) (Padding cl) = Inr (padded ! c))
             \<and> conv_forward cl input =
                 Inr (map (\<lambda>f. map (\<lambda>y. map (\<lambda>x.
                        relu ((\<Sum>c<length input. \<Sum>ky<KH. \<Sum>kx<KW.
                                padded ! c ! (y * S + ky) ! (x * S + kx) * Filters cl ! f ! c ! ky ! kx)
                              + Biases cl ! f))
                      [0..<(w + 2 * p - KW) div S + 1]) [0..<(h + 2 * p - KH) div S + 1])
                      [0..<length (Filters cl)])))
     \<and> (m < length v \<longrightarrow> dense_forward dl v = Inl IndexOutOfRange)
     \<and> (length v < m \<longrightarrow>
          dense_forward dl v =
            Inr (map (\<lambda>i. relu (DenseBiases dl ! i + (\<Sum>j<length v. Weights dl ! i ! j * v ! j)))
              [0..<length (DenseBiases dl)]))"
proof (intro conjI impI)
  assume "CF < length input"
  with assms(1-16) show "conv_forward cl input = Inl IndexOutOfRange"
    by (rule conv_forward_more_channels)
next
  assume "length input < CF"
  then have "length input \<le> CF" by simp
  with assms(1-15) assms(17)
  show "\<exists>padded. length padded = length input
       \<and> (\<forall>c < length input. pad2D (input ! c) (Padding cl) = Inr (padded ! c))
       \<and> conv_forward cl input =
           Inr (map (\<lambda>f. map (\<lambda>y. map (\<lambda>x.
                  relu ((\<Sum>c<length input. \<Sum>ky<KH. \<Sum>kx<KW.
                          padded ! c ! (y * S + ky) ! (x * S + kx) * Filters cl ! f ! c ! ky ! kx)
                        + Biases cl ! f))
                [0..<(w + 2 * p - KW) div S + 1]) [0..<(h + 2 * p - KH) div S + 1])
                [0..<length (Filters cl)])"
    by (rule conv_forward_value)
next
  assume long: "m < length v"
  from assms(18,19) have w: "Weights dl \<noteq> []" by auto
  then have "Weights dl ! 0 \<in> set (Weights dl)" by simp
  with assms(20) have "length (Weights dl ! 0) = m" by blast
  with long have "length (Weights dl ! 0) < length v" by simp
  with assms(19) w show "dense_forward dl v = Inl IndexOutOfRange"
    by (rule dense_forward_longer_input)
next
  assume "length v < m"
  with assms(20) have "\<forall>wrow \<in> set (Weights dl). length v \<le> length wrow" by simp
  moreover from assms(18) have "length (DenseBiases dl) \<le> length (Weights dl)" by simp
  ultimately show "dense_forward dl v =
      Inr (map (\<lambda>i. relu (DenseBiases dl ! i + (\<Sum>j<length v. Weights dl ! i ! j * v ! j)))
        [0..<length (DenseBiases dl)])"
    by (intro dense_forward_value)
qed


theorem shape_mismatch_behaviour_witness:
  "conv_forward \<lparr>Filters = [[[[1]]]], Biases = [0], Stride = 1, Padding = 0\<rparr> [[[5]], [[6]]]
     = Inl IndexOutOfRange
   \<and> dense_forward \<lparr>Weights = [[1, 2], [3, 4]], DenseBiases = [0, 0]\<rparr> [1, 1, 1]
     = Inl IndexOutOfRange
   \<and> (\<exists>out. conv_forward \<lparr>Filters = [[[[1]], [[1]]]], Biases = [0], Stride = 1, Padding = 0\<rparr>
          [[[5]]] = Inr out \<and> length out = 1)
   \<and> (\<exists>out. dense_forward \<lparr>Weights = [[1, 2], [3, 4]], DenseBiases = [0, 0]\<rparr> [1] = Inr out
        \<and> length out = 2)"
proof -
  let ?cl1 = "\<lparr>Filters = [[[[1::real]]]], Biases = [0], Stride = 1, Padding = 0\<rparr>"
  let ?cl2 = "\<lparr>Filters = [[[[1::real]], [[1]]]], Biases = [0], Stride = 1, Padding = 0\<rparr>"
  let ?dl = "\<lparr>Weights = [[1, 2], [3, 4::real]], DenseBiases = [0, 0]\<rparr>"
  note A = shape_mismatch_behaviour [where cl = ?cl1 and CF = 1 and KH = 1 and KW = 1
      and input = "[[[5]], [[6]]]" and h = 1 and w = 1 and S = 1 and p = 0
      and dl = ?dl and m = 2 and v = "[1, 1, 1]"]
  note B = shape_mismatch_behaviour [where cl = ?cl2 and CF = 2 and KH = 1 and KW = 1
      and input = "[[[5]]]" and h = 1 and w = 1 and S = 1 and p = 0
      and dl = ?dl and m = 2 and v = "[1]"]
  have 1: "conv_forward ?cl1 [[[5]], [[6]]] = Inl IndexOutOfRange"
    by (rule A [THEN conjunct1, rule_format]) auto
  have 2: "dense_forward ?dl [1, 1, 1] = Inl IndexOutOfRange"
    by (rule A [THEN conjunct2, THEN conjunct2, THEN conjunct1, rule_format]) auto
  have "\<exists>padded. length padded = length [[[5::real]]]
       \<and> (\<forall>c < length [[[5::real]]]. pad2D ([[[5]]] ! c) (Padding ?cl2) = Inr (padded ! c))
       \<and> conv_forward ?cl2 [[[5]]] =
           Inr (map (\<lambda>f. map (\<lambda>y. map (\<lambda>x.
                  relu ((\<Sum>c<length [[[5::real]]]. \<Sum>ky<1. \<Sum>kx<1.
                          padded ! c ! (y * 1 + ky) ! (x * 1 + kx) * Filters ?cl2 ! f ! c ! ky ! kx)
                        + Biases ?cl2 ! f))
                [0..<(1 + 2 * 0 - 1) div 1 + 1]) [0..<(1 + 2 * 0 - 1) div 1 + 1])
                [0..<length (Filters ?cl2)])"
    by (rule B [THEN conjunct2, THEN conjunct1, rule_format]) auto
  then have 3: "\<exists>out. conv_forward ?cl2 [[[5]]] = Inr out \<and> length out = 1" by auto
  have "dense_forward ?dl [1] =
      Inr (map (\<lambda>i. relu (DenseBiases ?dl ! i + (\<Sum>j<length [1::real]. Weights ?dl ! i ! j * [1] ! j)))
        [0..<length (DenseBiases ?dl)])"
    by (rule B [THEN conjunct2, THEN conjunct2, THEN conjunct2, rule_format]) auto
  then have 4: "\<exists>out. dense_forward ?dl [1] = Inr out \<and> length out = 2" by simp
  from 1 2 3 4 show ?thesis by (intro conjI)
qed


section \<open>Invalid configurations\<close>

text \<open>
  The source validates neither the stride, the pool size, the kernel size nor the computed
  output size. What happens is what the run-time system does: a division by a zero stride
  and an allocation of a negative length panic; everything else proceeds.
\<close>

lemma make2D_negative:
  "oh < 0 \<or> 0 < oh \<and> ow < 0 \<Longrightarrow> make2D oh ow = Inl MakesliceLenOutOfRange"
proof (cases "oh < 0")
  case True
  then show ?thesis by (simp add: make2D_def make_slice_def)
next
  case False
  assume "oh < 0 \<or> 0 < oh \<and> ow < 0"
  with False have oh: "0 < oh" and ow: "ow < 0" by simp_all
  from oh obtain n where n: "nat oh = Suc n" by (cases "nat oh") simp_all
  have "make_slice oh ([]::real list) = Inr (replicate (Suc n) [])"
    using oh n by (simp add: make_slice_def)
  moreover have "make_slice ow (0::real) = Inl MakesliceLenOutOfRange"
    using ow by (simp add: make_slice_def)
  ultimately show ?thesis by (simp add: make2D_def)
qed

lemma make2D_no_rows: "make2D 0 ow = Inr []"
  by (simp add: make2D_def make_slice_def)

lemma alloc_negative:
  assumes "0 < n" "oh < 0 \<or> 0 < oh \<and> ow < 0"
  shows "for_each (\<lambda>_. make2D oh ow) (upto_int (int n)) = Inl MakesliceLenOutOfRange"
proof -
  from assms(1) obtain k where "n = Suc k" by (cases n) simp_all
  then have "map int [0..<n] = 0 # map int [Suc 0..<n]" by (simp add: upt_conv_Cons)
  then show ?thesis by (simp add: make2D_negative [OF assms(2)])
qed

lemma conv_forward_zero_stride:
  assumes "Filters cl \<noteq> []" "Filters cl ! 0 \<noteq> []" "Filters cl ! 0 ! 0 \<noteq> []"
    and "input \<noteq> []" "input ! 0 \<noteq> []" and "Stride cl = 0"
  shows "conv_forward cl input = Inl DivideByZero"
  using assms by (simp add: conv_forward_def Let_def index_def conv_out_size_def go_div_def)

lemma pool_forward_zero_stride:
  assumes "input \<noteq> []" "input ! 0 \<noteq> []" and "PoolStride mpl = 0"
  shows "pool_forward mpl input = Inl DivideByZero"
  using assms by (simp add: pool_forward_def Let_def index_def pool_out_size_def go_div_def)

lemma conv_forward_negative_size:
  assumes "Filters cl \<noteq> []" "Filters cl ! 0 \<noteq> []" "Filters cl ! 0 ! 0 \<noteq> []"
    and "input \<noteq> []" "input ! 0 \<noteq> []"
    and "conv_out_size (int (length (input ! 0))) (Padding cl)
           (int (length (Filters cl ! 0 ! 0))) (Stride cl) = Inr oh"
    and "conv_out_size (int (length (input ! 0 ! 0))) (Padding cl)
           (int (length (Filters cl ! 0 ! 0 ! 0))) (Stride cl) = Inr ow"
    and "oh < 0 \<or> 0 < oh \<and> ow < 0"
  shows "conv_forward cl input = Inl MakesliceLenOutOfRange"
proof -
  have "0 < length (Filters cl)" using assms(1) by simp
  from alloc_negative [OF this assms(8)] assms(1-7) show ?thesis
    by (simp add: conv_forward_def Let_def index_def del: upto_int_int)
qed

lemma pool_forward_negative_size:
  assumes "input \<noteq> []" "input ! 0 \<noteq> []"
    and "pool_out_size (int (length (input ! 0))) (PoolSize mpl) (PoolStride mpl) = Inr oh"
    and "pool_out_size (int (length (input ! 0 ! 0))) (PoolSize mpl) (PoolStride mpl) = Inr ow"
    and "oh < 0 \<or> 0 < oh \<and> ow < 0"
  shows "pool_forward mpl input = Inl MakesliceLenOutOfRange"
proof -
  have "0 < length input" using assms(1) by simp
  from alloc_negative [OF this assms(5)] assms(1-4) show ?thesis
    by (simp add: pool_forward_def Let_def index_def del: upto_int_int)
qed

lemma pool_forward_no_rows:
  assumes "input \<noteq> []" "input ! 0 \<noteq> []"
    and "pool_out_size (int (length (input ! 0))) (PoolSize mpl) (PoolStride mpl) = Inr 0"
    and "pool_out_size (int (length (input ! 0 ! 0))) (PoolSize mpl) (PoolStride mpl) = Inr ow"
  shows "pool_forward mpl input = Inr (replicate (length input) [])"
proof -
  have "for_each (\<lambda>_. make2D 0 ow) (map int [0..<length input])
      = Inr (map (\<lambda>_. []) (map int [0..<length input]))"
    unfolding make2D_no_rows by (rule for_each_const)
  moreover have "for_each (\<lambda>c::int. Inr ([]::real list list)) (map int [0..<length input])
      = Inr (map (\<lambda>_. []) (map int [0..<length input]))"
    by (rule for_each_const)
  moreover have "upto_int 0 = []" by (simp add: upto_int_def)
  ultimately show ?thesis
    using assms by (simp add: pool_forward_def Let_def index_def map_replicate_const)
qed

text \<open>
  A computed size that is positive only because the division truncates toward zero
  (pool size 3, stride 2 on a 2 by 2 input: size 1) runs into the index check.
\<close>

lemma pool_forward_truncated_size:
  "pool_forward \<lparr>PoolSize = 3, PoolStride = 2\<rparr> [[[1, 2], [3, 4]]] = Inl IndexOutOfRange"
  by code_simp

text \<open>
  Configurations that the claim wants rejected and on which Forward returns an output: a
  pool size of 0, a negative stride (pooling and convolution), a pool size larger than
  the input (computed output size 0), a kernel of width 0.
\<close>

theorem invalid_configuration_counterexample:
  "pool_forward \<lparr>PoolSize = 0, PoolStride = 2\<rparr> [[[7]]] = Inr [[[7]]]
   \<and> pool_forward \<lparr>PoolSize = 2, PoolStride = -1\<rparr> [[[1, 2], [3, 4]]] = Inr [[[4]]]
   \<and> pool_forward \<lparr>PoolSize = 3, PoolStride = 1\<rparr> [[[1, 2], [3, 4]]] = Inr [[]]
   \<and> pool_out_size 2 3 1 = Inr 0
   \<and> conv_forward \<lparr>Filters = [[[[]]]], Biases = [3], Stride = 1, Padding = 0\<rparr> [[[5]]]
       = Inr [[[3, 3]]]
   \<and> conv_forward \<lparr>Filters = [[[[1]]]], Biases = [3], Stride = -1, Padding = 0\<rparr> [[[5]]]
       = Inr [[[8]]]"
  by code_simp

text \<open>
  Claim C4, as the code has it. Given a filter bank and an input that the first reads of
  Forward find (a first filter with a first channel with a first kernel row, a first
  input channel with a first row): a stride of 0 makes the convolution and the pooling
  layer fail at first use with the integer-division-by-zero panic; a negative computed
  output height, or a negative computed width with a positive height, makes them fail
  with the panic of \<^verbatim>\<open>make\<close> when the output is allocated; a computed output height
  of 0 is not rejected, the pooling layer returns one channel without rows per input
  channel.
\<close>

theorem invalid_configuration_behaviour:
  assumes "Filters cl \<noteq> []" and "Filters cl ! 0 \<noteq> []" and "Filters cl ! 0 ! 0 \<noteq> []"
    and "input \<noteq> []" and "input ! 0 \<noteq> []"
  shows "(Stride cl = 0 \<longrightarrow> conv_forward cl input = Inl DivideByZero)
     \<and> (PoolStride mpl = 0 \<longrightarrow> pool_forward mpl input = Inl DivideByZero)
     \<and> (conv_out_size (int (length (input ! 0))) (Padding cl)
           (int (length (Filters cl ! 0 ! 0))) (Stride cl) = Inr oh
         \<and> conv_out_size (int (length (input ! 0 ! 0))) (Padding cl)
           (int (length (Filters cl ! 0 ! 0 ! 0))) (Stride cl) = Inr ow
         \<and> (oh < 0 \<or> 0 < oh \<and> ow < 0)
        \<longrightarrow> conv_forward cl input = Inl MakesliceLenOutOfRange)
     \<and> (pool_out_size (int (length (input ! 0))) (PoolSize mpl) (PoolStride mpl) = Inr ph
         \<and> pool_out_size (int (length (input ! 0 ! 0))) (PoolSize mpl) (PoolStride mpl) = Inr pw
         \<and> (ph < 0 \<or> 0 < ph \<and> pw < 0)
        \<longrightarrow> pool_forward mpl input = Inl MakesliceLenOutOfRange)
     \<and> (pool_out_size (int (length (input ! 0))) (PoolSize mpl) (PoolStride mpl) = Inr 0
         \<and> pool_out_size (int (length (input ! 0 ! 0))) (PoolSize mpl) (PoolStride mpl) = Inr pw
        \<longrightarrow> pool_forward mpl input = Inr (replicate (length input) []))"
proof (intro conjI impI)
  assume "Stride cl = 0"
  with assms show "conv_forward cl input = Inl DivideByZero"
    by (rule conv_forward_zero_stride)
next
  assume "PoolStride mpl = 0"
  with assms(4,5) show "pool_forward mpl input = Inl DivideByZero"
    by (rule pool_forward_zero_stride)
next
  assume "conv_out_size (int (length (input ! 0))) (Padding cl)
           (int (length (Filters cl ! 0 ! 0))) (Stride cl) = Inr oh
         \<and> conv_out_size (int (length (input ! 0 ! 0))) (Padding cl)
           (int (length (Filters cl ! 0 ! 0 ! 0))) (Stride cl) = Inr ow
         \<and> (oh < 0 \<or> 0 < oh \<and> ow < 0)"
  then show "conv_forward cl input = Inl MakesliceLenOutOfRange"
    by (intro conv_forward_negative_size [OF assms, of oh ow]) simp_all
next
  assume "pool_out_size (int (length (input ! 0))) (PoolSize mpl) (PoolStride mpl) = Inr ph
         \<and> pool_out_size (int (length (input ! 0 ! 0))) (PoolSize mpl) (PoolStride mpl) = Inr pw
         \<and> (ph < 0 \<or> 0 < ph \<and> pw < 0)"
  then show "pool_forward mpl input = Inl MakesliceLenOutOfRange"
    by (intro pool_forward_negative_size [OF assms(4,5), of mpl ph pw]) simp_all
next
  assume "pool_out_size (int (length (input ! 0))) (PoolSize mpl) (PoolStride mpl) = Inr 0
         \<and> pool_out_size (int (length (input ! 0 ! 0))) (PoolSize mpl) (PoolStride mpl) = Inr pw"
  then show "pool_forward mpl input = Inr (replicate (length input) [])"
    by (intro pool_forward_no_rows [OF assms(4,5), of mpl pw]) simp_all
qed


theorem invalid_configuration_behaviour_witness:
  "conv_forward \<lparr>Filters = [[[[1]]]], Biases = [0], Stride = 0, Padding = 0\<rparr> [[[5]]]
     = Inl DivideByZero
   \<and> pool_forward \<lparr>PoolSize = 1, PoolStride = 0\<rparr> [[[5]]] = Inl DivideByZero
   \<and> conv_forward \<lparr>Filters = [[[[1], [1], [1], [1]]]], Biases = [0], Stride = 1, Padding = 0\<rparr>
       [[[1, 2], [3, 4]]] = Inl MakesliceLenOutOfRange
   \<and> pool_forward \<lparr>PoolSize = 4, PoolStride = 1\<rparr> [[[1, 2], [3, 4]]]
       = Inl MakesliceLenOutOfRange
   \<and> pool_forward \<lparr>PoolSize = 3, PoolStride = 1\<rparr> [[[1, 2], [3, 4]]] = Inr [[]]"
proof -
  let ?cl0 = "\<lparr>Filters = [[[[1::real]]]], Biases = [0], Stride = 0, Padding = 0\<rparr>"
  let ?cl3 = "\<lparr>Filters = [[[[1::real], [1], [1], [1]]]], Biases = [0], Stride = 1, Padding = 0\<rparr>"
  let ?t = "[[[1, 2], [3, 4::real]]]"
  note A = invalid_configuration_behaviour [where cl = ?cl0 and input = "[[[5]]]"
      and mpl = "\<lparr>PoolSize = 1, PoolStride = 0\<rparr>"]
  note B = invalid_configuration_behaviour [where cl = ?cl3 and input = ?t
      and mpl = "\<lparr>PoolSize = 4, PoolStride = 1\<rparr>" and oh = "-1" and ow = 2
      and ph = "-1" and pw = "-1"]
  note C = invalid_configuration_behaviour [where cl = ?cl3 and input = ?t
      and mpl = "\<lparr>PoolSize = 3, PoolStride = 1\<rparr>" and pw = 0]
  have 1: "conv_forward ?cl0 [[[5]]] = Inl DivideByZero"
    by (rule A [THEN conjunct1, rule_format]) simp_all
  have 2: "pool_forward \<lparr>PoolSize = 1, PoolStride = 0\<rparr> [[[5]]] = Inl DivideByZero"
    by (rule A [THEN conjunct2, THEN conjunct1, rule_format]) simp_all
  have 3: "conv_forward ?cl3 ?t = Inl MakesliceLenOutOfRange"
    by (rule B [THEN conjunct2, THEN conjunct2, THEN conjunct1, rule_format])
       (simp_all add: conv_out_size_def go_div_def)
  have 4: "pool_forward \<lparr>PoolSize = 4, PoolStride = 1\<rparr> ?t = Inl MakesliceLenOutOfRange"
    by (rule B [THEN conjunct2, THEN conjunct2, THEN conjunct2, THEN conjunct1, rule_format])
       (simp_all add: pool_out_size_def go_div_def)
  have "pool_forward \<lparr>PoolSize = 3, PoolStride = 1\<rparr> ?t = Inr (replicate (length ?t) [])"
    by (rule C [THEN conjunct2, THEN conjunct2, THEN conjunct2, THEN conjunct2, rule_format])
       (simp_all add: pool_out_size_def go_div_def)
  then have 5: "pool_forward \<lparr>PoolSize = 3, PoolStride = 1\<rparr> ?t = Inr [[]]" by simp
  from 1 2 3 4 5 show ?thesis by (intro conjI)
qed


end
